theory Spec2Isabelle
  imports Complex_Main
begin

section \<open>The retry scheduler \<open>useRetry\<close>\<close>

text \<open>
  The hook \<open>useRetry(asyncFn, options)\<close> keeps six React state cells (\<open>attempt\<close>,
  \<open>isRetrying\<close>, \<open>isSuccess\<close>, \<open>isFailed\<close>, \<open>delayMs\<close>, \<open>error\<close>) and three refs
  (\<open>abortRef\<close>, \<open>timeoutRef\<close>, \<open>attemptRef\<close>), and returns \<open>execute\<close>, \<open>abort\<close> and
  \<open>reset\<close>. The asynchronous function \<open>runAttempt\<close> suspends at two places: at
  \<open>await asyncFn()\<close> and at the \<open>await\<close> of the promise that \<open>setTimeout\<close> resolves.

  The embedding passes the state explicitly. An asynchronous function returns the state
  of its promise together with the new hook state: the promise is either suspended at one
  of the two \<open>await\<close>s, or resolved, or rejected. Resuming a suspended promise is a
  function of its own. JavaScript numbers that hold delays are IEEE 754 doubles with
  their rounding, infinities and \<open>NaN\<close>; attempt counters are natural numbers.
  The state cells hold what the setters wrote last. The callback \<open>execute\<close> does not read
  the cell \<open>isRetrying\<close>: it is created by \<open>useCallback\<close> with a dependency list that
  omits \<open>isRetrying\<close>, and tests the constant its closure captured at the render that
  created it; that constant is a parameter of \<open>execute\<close>. The two effects (\<open>autoStart\<close>
  and the cleanup on unmount) are not modelled.
\<close>

subsection \<open>Numbers\<close>

text \<open>
  A JavaScript number is an IEEE 754 binary64 value: a finite value (a real number of
  the set \<open>binary64\<close>), an infinity or NaN. The two zeros are identified; the delay
  computation neither divides nor tests the sign of a zero. An arithmetic operation
  rounds its exact result to the nearest value, ties to the even mantissa, and
  overflows to an infinity (\<open>round64\<close>): the nearest value is taken among the finite
  values and \<open>\<plusminus> 2 ^ 1024\<close>, and \<open>\<plusminus> 2 ^ 1024\<close> stands for the infinity.
\<close>

datatype double = Finite real | PosInf | NegInf | NaN

definition binary64 :: "real set" where
  "binary64 = {real_of_int m * 2 powi e | m e. \<bar>m\<bar> < 2 ^ 53 \<and> - 1074 \<le> e \<and> e \<le> 971}"

definition huge :: real where
  "huge = 2 ^ 1024"

definition grid :: "real set" where
  "grid = binary64 \<union> {huge, - huge}"

text \<open>The neighbours of \<open>x\<close> among these values, for \<open>\<bar>x\<bar> \<le> 2 ^ 1024\<close>.\<close>

definition below :: "real \<Rightarrow> real" where
  "below x = Max {d \<in> grid. d \<le> x}"

definition above :: "real \<Rightarrow> real" where
  "above x = Min {d \<in> grid. x \<le> d}"

text \<open>The mantissa of the canonical representation (53 bits, or fewer bits at the least
  exponent) is even.\<close>

definition evenMantissa :: "real \<Rightarrow> bool" where
  "evenMantissa d =
     (\<exists>m e. d = real_of_int m * 2 powi e \<and> even m \<and> - 1074 \<le> e
        \<and> (2 ^ 52 \<le> \<bar>m\<bar> \<and> \<bar>m\<bar> < 2 ^ 53 \<or> e = - 1074 \<and> \<bar>m\<bar> < 2 ^ 52))"

definition nearestEven :: "real \<Rightarrow> real" where
  "nearestEven x =
     (let lo = below x; hi = above x
      in if x - lo < hi - x then lo
         else if hi - x < x - lo then hi
         else if evenMantissa lo then lo else hi)"

definition round64 :: "real \<Rightarrow> double" where
  "round64 x =
     (if huge \<le> x then PosInf
      else if x \<le> - huge then NegInf
      else (let r = nearestEven x
            in if r = huge then PosInf
               else if r = - huge then NegInf
               else Finite r))"


fun num_mul :: "double \<Rightarrow> double \<Rightarrow> double" where
  "num_mul (Finite x) (Finite y) = round64 (x * y)"
| "num_mul NaN _ = NaN"
| "num_mul _ NaN = NaN"
| "num_mul (Finite x) PosInf = (if x = 0 then NaN else if 0 < x then PosInf else NegInf)"
| "num_mul (Finite x) NegInf = (if x = 0 then NaN else if 0 < x then NegInf else PosInf)"
| "num_mul PosInf (Finite y) = (if y = 0 then NaN else if 0 < y then PosInf else NegInf)"
| "num_mul NegInf (Finite y) = (if y = 0 then NaN else if 0 < y then NegInf else PosInf)"
| "num_mul PosInf PosInf = PosInf"
| "num_mul PosInf NegInf = NegInf"
| "num_mul NegInf PosInf = NegInf"
| "num_mul NegInf NegInf = PosInf"

fun num_add :: "double \<Rightarrow> double \<Rightarrow> double" where
  "num_add (Finite x) (Finite y) = round64 (x + y)"
| "num_add NaN _ = NaN"
| "num_add _ NaN = NaN"
| "num_add PosInf NegInf = NaN"
| "num_add NegInf PosInf = NaN"
| "num_add PosInf _ = PosInf"
| "num_add _ PosInf = PosInf"
| "num_add NegInf _ = NegInf"
| "num_add _ NegInf = NegInf"

fun num_sub :: "double \<Rightarrow> double \<Rightarrow> double" where
  "num_sub (Finite x) (Finite y) = round64 (x - y)"
| "num_sub NaN _ = NaN"
| "num_sub _ NaN = NaN"
| "num_sub PosInf PosInf = NaN"
| "num_sub NegInf NegInf = NaN"
| "num_sub PosInf _ = PosInf"
| "num_sub _ NegInf = PosInf"
| "num_sub NegInf _ = NegInf"
| "num_sub _ PosInf = NegInf"

fun Math_min :: "double \<Rightarrow> double \<Rightarrow> double" where
  "Math_min NaN _ = NaN"
| "Math_min _ NaN = NaN"
| "Math_min NegInf _ = NegInf"
| "Math_min _ NegInf = NegInf"
| "Math_min PosInf b = b"
| "Math_min a PosInf = a"
| "Math_min (Finite x) (Finite y) = Finite (min x y)"

subsection \<open>Data\<close>

text \<open>What one invocation of the wrapped operation does: it throws before returning a
  promise, or it returns a promise that is later fulfilled or rejected.\<close>

datatype ('a, 'e) call = Throws 'e | Resolves 'a | Rejects 'e

text \<open>\<open>UseRetryOptions\<close> after destructuring with defaults. A callback that throws
  returns the thrown value: \<open>Inl x\<close> for \<open>shouldRetry\<close>, \<open>Some x\<close> for the two
  notification callbacks. The optional callbacks are \<open>None\<close> when not supplied. The
  default \<open>jitter\<close> is the number that the literal \<open>0.1\<close> denotes.\<close>

record ('a, 'e) options =
  maxAttempts :: int
  initialDelayMs :: double
  maxDelayMs :: double
  backoffMultiplier :: double
  jitter :: double
  shouldRetry :: "'e \<Rightarrow> nat \<Rightarrow> 'e + bool"
  onSuccess :: "('a \<Rightarrow> 'e option) option"
  onFailure :: "('e \<Rightarrow> nat \<Rightarrow> 'e option) option"
  autoStart :: bool

definition defaultOptions :: "('a, 'e) options" where
  "defaultOptions =
     \<lparr>maxAttempts = 3, initialDelayMs = Finite 1000, maxDelayMs = Finite 30000,
      backoffMultiplier = Finite 2, jitter = round64 (1 / 10), shouldRetry = (\<lambda>_ _. Inr True), onSuccess = None, onFailure = None,
      autoStart = False\<rparr>"

text \<open>The surroundings of the hook: the behaviour of the \<open>k\<close>-th invocation of
  \<open>asyncFn\<close>, the \<open>k\<close>-th value drawn from \<open>Math.random()\<close> (both counted from 0), and
  the engine's \<open>Math.pow\<close>, whose result the language leaves to the implementation
  (an approximation of the power) except in special cases.\<close>

record ('a, 'e) env =
  asyncFn :: "nat \<Rightarrow> ('a, 'e) call"
  mathRandom :: "nat \<Rightarrow> real"
  mathPow :: "double \<Rightarrow> double \<Rightarrow> double"

text \<open>The promise returned by \<open>execute()\<close>. \<open>AwaitOp n k\<close>: attempt \<open>n\<close> is suspended
  at \<open>await asyncFn()\<close>, on invocation number \<open>k\<close>. \<open>AwaitTimer n h\<close>: attempt \<open>n\<close> has
  failed and is suspended on the wait promise that only the timer with handle \<open>h\<close>
  resolves. \<open>Resolved None\<close> is resolution with \<open>null\<close>.\<close>

datatype ('a, 'e) promise =
  AwaitOp nat nat | AwaitTimer nat nat | Resolved "'a option" | Rejected 'e

text \<open>The state cells and refs of one hook instance, followed by the bookkeeping of its
  surroundings: how often \<open>asyncFn\<close> and \<open>Math.random\<close> have been called, the arguments
  of the calls of \<open>onSuccess\<close> and \<open>onFailure\<close> in order, the timers that are scheduled
  and neither fired nor cleared (handle and delay), and the next timer handle. Handles
  are counted from 1: what \<open>setTimeout\<close> returns is truthy, so that the test
  \<open>if (timeoutRef.current)\<close> of \<open>abort\<close> asks whether a handle is stored.\<close>

record ('a, 'e) hook =
  attempt :: nat
  isRetrying :: bool
  isSuccess :: bool
  isFailed :: bool
  delayMs :: double
  error :: "'e option"
  abortRef :: bool
  timeoutRef :: "nat option"
  attemptRef :: nat
  calls :: nat
  draws :: nat
  successLog :: "'a list"
  failureLog :: "('e \<times> nat) list"
  timers :: "(nat \<times> double) list"
  nextTimer :: nat

definition initial :: "('a, 'e) hook" where
  "initial =
     \<lparr>attempt = 0, isRetrying = False, isSuccess = False, isFailed = False,
      delayMs = Finite 0, error = None, abortRef = False, timeoutRef = None, attemptRef = 0, calls = 0,
      draws = 0, successLog = [], failureLog = [], timers = [], nextTimer = 1\<rparr>"

subsection \<open>Timers\<close>

definition pending :: "nat \<Rightarrow> ('a, 'e) hook \<Rightarrow> bool" where
  "pending h s = (h \<in> set (map fst (timers s)))"

definition clearTimeout :: "nat \<Rightarrow> ('a, 'e) hook \<Rightarrow> ('a, 'e) hook" where
  "clearTimeout h s = s\<lparr>timers := filter (\<lambda>t. fst t \<noteq> h) (timers s)\<rparr>"

subsection \<open>\<open>calculateDelay\<close>\<close>

text \<open>\<open>Math.pow\<close>: an exponent 0 gives 1; every other result is the engine's.\<close>

definition Math_pow :: "('a, 'e) env \<Rightarrow> double \<Rightarrow> double \<Rightarrow> double" where
  "Math_pow env base exponent =
     (if exponent = Finite 0 then Finite 1 else mathPow env base exponent)"

text \<open>\<open>rnd\<close> is the value of \<open>Math.random()\<close>. The attempt number is a number below
  \<open>2 ^ 53\<close>, where the counter is exact.\<close>

definition calculateDelay :: "('a, 'e) options \<Rightarrow> ('a, 'e) env \<Rightarrow> real \<Rightarrow> nat \<Rightarrow> double" where
  "calculateDelay opts env rnd currentAttempt =
     (let baseDelay = num_mul (initialDelayMs opts)
                        (Math_pow env (backoffMultiplier opts)
                           (num_sub (Finite (real currentAttempt)) (Finite 1)));
          cappedDelay = Math_min baseDelay (maxDelayMs opts);
          jitterAmount = num_mul cappedDelay (jitter opts);
          minDelay = num_sub cappedDelay jitterAmount;
          maxDelay = num_add cappedDelay jitterAmount
      in num_add minDelay (num_mul (Finite rnd) (num_sub maxDelay minDelay)))"

subsection \<open>\<open>runAttempt\<close>\<close>

text \<open>The terminal branch of the \<open>catch\<close> block: \<open>setIsFailed(true)\<close>,
  \<open>setError(error)\<close>, \<open>onFailure?.(error, currentAttempt)\<close>, \<open>return null\<close>. An
  exception of \<open>onFailure\<close> leaves the \<open>catch\<close> block and rejects the promise.\<close>

definition runAttempt_terminal ::
  "('a, 'e) options \<Rightarrow> nat \<Rightarrow> 'e \<Rightarrow> ('a, 'e) hook \<Rightarrow> ('a, 'e) promise \<times> ('a, 'e) hook" where
  "runAttempt_terminal opts currentAttempt err s =
     (let s1 = s\<lparr>isFailed := True, error := Some err\<rparr>
      in case onFailure opts of
           None \<Rightarrow> (Resolved None, s1)
         | Some f \<Rightarrow>
             (let s2 = s1\<lparr>failureLog := failureLog s1 @ [(err, currentAttempt)]\<rparr>
              in case f err currentAttempt of
                   None \<Rightarrow> (Resolved None, s2)
                 | Some x \<Rightarrow> (Rejected x, s2)))"

text \<open>The \<open>catch\<close> block up to its \<open>await\<close>. \<open>shouldRetry\<close> is only called when
  attempts remain (\<open>||\<close> short-circuits); an exception of it rejects the promise.
  Otherwise the delay is computed, \<open>setDelayMs(delay)\<close>, \<open>setIsRetrying(true)\<close>, a
  timer is scheduled, its handle stored in \<open>timeoutRef\<close>, and the function suspends.\<close>

definition runAttempt_catch ::
  "('a, 'e) options \<Rightarrow> ('a, 'e) env \<Rightarrow> nat \<Rightarrow> 'e \<Rightarrow> ('a, 'e) hook
     \<Rightarrow> ('a, 'e) promise \<times> ('a, 'e) hook" where
  "runAttempt_catch opts env currentAttempt err s =
     (if maxAttempts opts \<le> int currentAttempt then runAttempt_terminal opts currentAttempt err s
      else case shouldRetry opts err currentAttempt of
             Inl x \<Rightarrow> (Rejected x, s)
           | Inr retry \<Rightarrow>
               if \<not> retry then runAttempt_terminal opts currentAttempt err s
               else
                 (let delay = calculateDelay opts env (mathRandom env (draws s)) currentAttempt;
                      h = nextTimer s
                  in (AwaitTimer currentAttempt h,
                      s\<lparr>draws := Suc (draws s), delayMs := delay, isRetrying := True,
                        timers := timers s @ [(h, delay)], nextTimer := Suc h,
                        timeoutRef := Some h\<rparr>)))"

text \<open>\<open>runAttempt(currentAttempt)\<close> up to its first \<open>await\<close>: the abort check, then
  the invocation of \<open>asyncFn\<close> inside \<open>try\<close>. An invocation that throws enters the
  \<open>catch\<close> block at once; otherwise the function suspends on the returned promise.\<close>

definition runAttempt ::
  "('a, 'e) options \<Rightarrow> ('a, 'e) env \<Rightarrow> nat \<Rightarrow> ('a, 'e) hook
     \<Rightarrow> ('a, 'e) promise \<times> ('a, 'e) hook" where
  "runAttempt opts env currentAttempt s =
     (if abortRef s then (Resolved None, s)
      else
        (let k = calls s; s1 = s\<lparr>calls := Suc k\<rparr>
         in case asyncFn env k of
              Throws err \<Rightarrow> runAttempt_catch opts env currentAttempt err s1
            | Resolves _ \<Rightarrow> (AwaitOp currentAttempt k, s1)
            | Rejects _ \<Rightarrow> (AwaitOp currentAttempt k, s1)))"

text \<open>The continuation of \<open>await asyncFn()\<close> once the promise of invocation \<open>k\<close> has
  settled. On fulfilment: \<open>setIsSuccess(true)\<close>, \<open>onSuccess?.(result)\<close>,
  \<open>return result\<close>; these statements are inside \<open>try\<close>, so an exception of
  \<open>onSuccess\<close> enters the \<open>catch\<close> block. On rejection: the \<open>catch\<close> block.
  (An invocation that threw never suspended; there is nothing to continue.)\<close>

definition runAttempt_settled ::
  "('a, 'e) options \<Rightarrow> ('a, 'e) env \<Rightarrow> nat \<Rightarrow> nat \<Rightarrow> ('a, 'e) hook
     \<Rightarrow> ('a, 'e) promise \<times> ('a, 'e) hook" where
  "runAttempt_settled opts env currentAttempt k s =
     (case asyncFn env k of
        Resolves result \<Rightarrow>
          (let s1 = s\<lparr>isSuccess := True\<rparr>
           in case onSuccess opts of
                None \<Rightarrow> (Resolved (Some result), s1)
              | Some f \<Rightarrow>
                  (let s2 = s1\<lparr>successLog := successLog s1 @ [result]\<rparr>
                   in case f result of
                        None \<Rightarrow> (Resolved (Some result), s2)
                      | Some x \<Rightarrow> runAttempt_catch opts env currentAttempt x s2))
      | Rejects err \<Rightarrow> runAttempt_catch opts env currentAttempt err s
      | Throws _ \<Rightarrow> (AwaitOp currentAttempt k, s))"

text \<open>The continuation of the wait once its timer has fired: the second abort check,
  then \<open>attemptRef.current = nextAttempt\<close>, \<open>setAttempt(nextAttempt)\<close>,
  \<open>setIsRetrying(false)\<close>, \<open>setDelayMs(0)\<close> and \<open>return runAttempt(nextAttempt)\<close>.
  \<open>timeoutRef\<close> keeps the handle of the fired timer.\<close>

definition runAttempt_resumed ::
  "('a, 'e) options \<Rightarrow> ('a, 'e) env \<Rightarrow> nat \<Rightarrow> ('a, 'e) hook
     \<Rightarrow> ('a, 'e) promise \<times> ('a, 'e) hook" where
  "runAttempt_resumed opts env currentAttempt s =
     (if abortRef s then (Resolved None, s)
      else
        (let nextAttempt = currentAttempt + 1
         in runAttempt opts env nextAttempt
              (s\<lparr>attemptRef := nextAttempt, attempt := nextAttempt, isRetrying := False,
                 delayMs := Finite 0\<rparr>)))"

subsection \<open>\<open>execute\<close>, \<open>abort\<close>, \<open>reset\<close>\<close>

text \<open>\<open>captured\<close> is the value of \<open>isRetrying\<close> in the closure of the callback that is
  called: the value at the render that created the callback. The callback is created
  again only on a render at which one of \<open>asyncFn\<close>, the numeric options,
  \<open>shouldRetry\<close>, \<open>onSuccess\<close>, \<open>onFailure\<close> has changed; with stable arguments it is
  the callback of the first render, which captured \<open>false\<close>.\<close>

definition execute ::
  "('a, 'e) options \<Rightarrow> ('a, 'e) env \<Rightarrow> bool \<Rightarrow> ('a, 'e) hook
     \<Rightarrow> ('a, 'e) promise \<times> ('a, 'e) hook" where
  "execute opts env captured s =
     (if captured then (Resolved None, s)
      else runAttempt opts env 1
             (s\<lparr>abortRef := False, attemptRef := 1, attempt := 1, isSuccess := False,
                isFailed := False, error := None, delayMs := Finite 0\<rparr>))"

definition abort :: "('a, 'e) hook \<Rightarrow> ('a, 'e) hook" where
  "abort s =
     (let s1 = s\<lparr>abortRef := True\<rparr>;
          s2 = (case timeoutRef s1 of
                  Some h \<Rightarrow> (clearTimeout h s1)\<lparr>timeoutRef := None\<rparr>
                | None \<Rightarrow> s1)
      in s2\<lparr>isRetrying := False, delayMs := Finite 0\<rparr>)"

definition reset :: "('a, 'e) hook \<Rightarrow> ('a, 'e) hook" where
  "reset s =
     (abort s)\<lparr>attempt := 0, isSuccess := False, isFailed := False, error := None,
               delayMs := Finite 0, attemptRef := 0\<rparr>"

subsection \<open>Scheduling\<close>

text \<open>One scheduling step of a promise: a promise suspended on the operation continues
  when the operation settles; a promise suspended on a wait continues when its timer
  fires, which only a timer that is still scheduled can do (the fired timer leaves the
  scheduled ones); a settled promise stays.\<close>

definition resume ::
  "('a, 'e) options \<Rightarrow> ('a, 'e) env \<Rightarrow> ('a, 'e) promise \<Rightarrow> ('a, 'e) hook
     \<Rightarrow> ('a, 'e) promise \<times> ('a, 'e) hook" where
  "resume opts env p s =
     (case p of
        AwaitOp n k \<Rightarrow> runAttempt_settled opts env n k s
      | AwaitTimer n h \<Rightarrow>
          if pending h s then runAttempt_resumed opts env n (clearTimeout h s) else (p, s)
      | Resolved v \<Rightarrow> (p, s)
      | Rejected x \<Rightarrow> (p, s))"

text \<open>A sequence left alone: the promise is resumed until it settles, at most \<open>fuel\<close>
  times.\<close>

fun drive ::
  "('a, 'e) options \<Rightarrow> ('a, 'e) env \<Rightarrow> nat \<Rightarrow> ('a, 'e) promise \<times> ('a, 'e) hook
     \<Rightarrow> ('a, 'e) promise \<times> ('a, 'e) hook" where
  "drive opts env 0 ps = ps"
| "drive opts env (Suc fuel) ps = drive opts env fuel (resume opts env (fst ps) (snd ps))"

text \<open>The hook with its owner: the owner calls \<open>execute\<close> (a callback whose closure
  captured the given value of \<open>isRetrying\<close>), \<open>abort\<close> and \<open>reset\<close> at any moment,
  and the promise returned by the \<open>t\<close>-th call of \<open>execute\<close> is resumed by \<open>Wake t\<close>.\<close>

datatype event = Execute bool | Wake nat | Abort | Reset

fun step ::
  "('a, 'e) options \<Rightarrow> ('a, 'e) env \<Rightarrow> event \<Rightarrow> ('a, 'e) hook \<times> ('a, 'e) promise list
     \<Rightarrow> ('a, 'e) hook \<times> ('a, 'e) promise list" where
  "step opts env (Execute captured) (s, ps) =
     (case execute opts env captured s of (p, s') \<Rightarrow> (s', ps @ [p]))"
| "step opts env (Wake t) (s, ps) =
     (if t < length ps
      then (case resume opts env (ps ! t) s of (p, s') \<Rightarrow> (s', ps[t := p]))
      else (s, ps))"
| "step opts env Abort (s, ps) = (abort s, ps)"
| "step opts env Reset (s, ps) = (reset s, ps)"

fun run ::
  "('a, 'e) options \<Rightarrow> ('a, 'e) env \<Rightarrow> event list \<Rightarrow> ('a, 'e) hook \<times> ('a, 'e) promise list
     \<Rightarrow> ('a, 'e) hook \<times> ('a, 'e) promise list" where
  "run opts env [] sys = sys"
| "run opts env (ev # evs) sys = run opts env evs (step opts env ev sys)"

subsection \<open>Proof devices\<close>

text \<open>The state in which attempt \<open>n + 1\<close> starts when attempt \<open>n\<close> has failed in
  state \<open>s\<close>, a wait has been scheduled and its timer has fired without an abort.\<close>

definition afterWait :: "nat \<Rightarrow> ('a, 'e) hook \<Rightarrow> ('a, 'e) hook" where
  "afterWait n s =
     s\<lparr>draws := Suc (draws s), timers := filter (\<lambda>t. fst t \<noteq> nextTimer s) (timers s),
       nextTimer := Suc (nextTimer s), timeoutRef := Some (nextTimer s),
       attemptRef := Suc n, attempt := Suc n, isRetrying := False, delayMs := Finite 0\<rparr>"

text \<open>The error of a failed invocation, and the invariant of a sequence that runs alone
  with callbacks that return normally: the promise is not rejected, a suspended attempt
  is the attempt that \<open>attempt\<close> shows and, on the operation, the latest invocation;
  and once \<open>isFailed\<close> is set the promise is resolved with \<open>null\<close>, \<open>error\<close> is the
  error of the latest invocation and \<open>onFailure\<close>, if supplied, was last called with
  that error and the attempt number.\<close>

fun failure :: "('a, 'e) call \<Rightarrow> 'e option" where
  "failure (Throws e) = Some e"
| "failure (Rejects e) = Some e"
| "failure (Resolves v) = None"

fun contained ::
  "('a, 'e) options \<Rightarrow> ('a, 'e) env \<Rightarrow> ('a, 'e) hook \<Rightarrow> ('a, 'e) promise \<Rightarrow> bool" where
  "contained opts env s (AwaitOp n k) = (n = attempt s \<and> Suc k = calls s \<and> \<not> isFailed s)"
| "contained opts env s (AwaitTimer n h) = (n = attempt s \<and> \<not> isFailed s)"
| "contained opts env s (Resolved r) =
     (isFailed s \<longrightarrow>
        r = None \<and> 0 < calls s
        \<and> (\<exists>e. error s = Some e \<and> failure (asyncFn env (calls s - 1)) = Some e
               \<and> (onFailure opts \<noteq> None \<longrightarrow>
                    failureLog s \<noteq> [] \<and> last (failureLog s) = (e, attempt s))))"
| "contained opts env s (Rejected x) = False"

text \<open>A timer handle that has been issued and is no longer scheduled: no later
  \<open>setTimeout\<close> returns it again.\<close>

definition dead :: "nat \<Rightarrow> ('a, 'e) hook \<Rightarrow> bool" where
  "dead h s = (h < nextTimer s \<and> \<not> pending h s)"

text \<open>The surroundings as a hook created later meets them: the invocations and random
  draws that remain after \<open>c\<close> invocations and \<open>d\<close> draws.\<close>

definition shifted :: "nat \<Rightarrow> nat \<Rightarrow> ('a, 'e) env \<Rightarrow> ('a, 'e) env" where
  "shifted c d env =
     \<lparr>asyncFn = (\<lambda>k. asyncFn env (c + k)), mathRandom = (\<lambda>k. mathRandom env (d + k)),
      mathPow = mathPow env\<rparr>"

text \<open>Two hooks that show the same state cells and refs, the first having made \<open>c\<close>
  invocations, \<open>d\<close> draws and the callback calls \<open>sl\<close> and \<open>fl\<close> before; and two
  promises that stand at the same place of \<open>runAttempt\<close>.\<close>

definition alike_state ::
  "nat \<Rightarrow> nat \<Rightarrow> 'a list \<Rightarrow> ('e \<times> nat) list \<Rightarrow> ('a, 'e) hook \<Rightarrow> ('a, 'e) hook \<Rightarrow> bool" where
  "alike_state c d sl fl s1 s2 =
     (attempt s1 = attempt s2 \<and> isRetrying s1 = isRetrying s2 \<and> isSuccess s1 = isSuccess s2
      \<and> isFailed s1 = isFailed s2 \<and> delayMs s1 = delayMs s2 \<and> error s1 = error s2
      \<and> abortRef s1 = abortRef s2 \<and> attemptRef s1 = attemptRef s2
      \<and> calls s1 = c + calls s2 \<and> draws s1 = d + draws s2
      \<and> successLog s1 = sl @ successLog s2 \<and> failureLog s1 = fl @ failureLog s2)"

fun alike_promise ::
  "nat \<Rightarrow> ('a, 'e) hook \<Rightarrow> ('a, 'e) hook \<Rightarrow> ('a, 'e) promise \<Rightarrow> ('a, 'e) promise \<Rightarrow> bool" where
  "alike_promise c s1 s2 (AwaitOp n k) (AwaitOp n' k') = (n = n' \<and> k = c + k')"
| "alike_promise c s1 s2 (AwaitTimer n h) (AwaitTimer n' h') =
     (n = n' \<and> pending h s1 \<and> pending h' s2)"
| "alike_promise c s1 s2 (Resolved v) (Resolved v') = (v = v')"
| "alike_promise c s1 s2 (Rejected x) (Rejected x') = (x = x')"
| "alike_promise c s1 s2 _ _ = False"

definition alike ::
  "nat \<Rightarrow> nat \<Rightarrow> 'a list \<Rightarrow> ('e \<times> nat) list \<Rightarrow> ('a, 'e) promise \<times> ('a, 'e) hook
     \<Rightarrow> ('a, 'e) promise \<times> ('a, 'e) hook \<Rightarrow> bool" where
  "alike c d sl fl ps1 ps2 =
     (alike_state c d sl fl (snd ps1) (snd ps2)
      \<and> alike_promise c (snd ps1) (snd ps2) (fst ps1) (fst ps2))"



text \<open>A \<open>Math.pow\<close> for the examples: correctly rounded for a positive base and finite
  arguments, which is all the examples give it.\<close>

definition pow64 :: "double \<Rightarrow> double \<Rightarrow> double" where
  "pow64 base exponent =
     (case (base, exponent) of
        (Finite b, Finite x) \<Rightarrow> if 0 < b then round64 (b powr x) else NaN
      | _ \<Rightarrow> NaN)"

section \<open>Properties\<close>

subsection \<open>Rounding\<close>

lemma finite_binary64: "finite binary64"
proof -
  have "binary64 \<subseteq> (\<lambda>(m, e). real_of_int m * 2 powi e) ` ({- (2 ^ 53) .. 2 ^ 53} \<times> {- 1074 .. 971})"
  proof
    fix d assume "d \<in> binary64"
    then obtain m e where "d = real_of_int m * 2 powi e" "\<bar>m\<bar> < 2 ^ 53" "- 1074 \<le> e" "e \<le> 971"
      by (auto simp: binary64_def)
    then show "d \<in> (\<lambda>(m, e). real_of_int m * 2 powi e) ` ({- (2 ^ 53) .. 2 ^ 53} \<times> {- 1074 .. 971})"
      by (intro image_eqI [of _ _ "(m, e)"]) auto
  qed
  then show ?thesis by (rule finite_subset) simp
qed

lemma finite_grid: "finite grid"
  by (simp add: grid_def finite_binary64)

lemma binary64_bound:
  assumes "d \<in> binary64"
  shows "\<bar>d\<bar> < huge"
proof -
  obtain m e where d: "d = real_of_int m * 2 powi e" and m: "\<bar>m\<bar> < 2 ^ 53" and e: "e \<le> 971"
    using assms by (auto simp: binary64_def)
  have "\<bar>d\<bar> = real_of_int \<bar>m\<bar> * 2 powi e" by (simp add: d abs_mult)
  also have "\<dots> \<le> real_of_int \<bar>m\<bar> * 2 powi 971"
    using e by (intro mult_left_mono power_int_increasing) simp_all
  also have "\<dots> < 2 ^ 53 * 2 powi 971"
  proof -
    have "real_of_int \<bar>m\<bar> < 2 ^ 53" using m by (metis of_int_less_numeral_power_cancel_iff)
    then show ?thesis by (intro mult_strict_right_mono) simp_all
  qed
  also have "\<dots> = huge"
  proof -
    have "(2::real) powi 971 = 2 ^ 971" by (simp add: power_int_def)
    then have "(2::real) ^ 53 * 2 powi 971 = 2 ^ (53 + 971)" by (simp only: power_add)
    then show ?thesis by (simp add: huge_def)
  qed
  finally show ?thesis .
qed

lemma int_in_binary64: "\<bar>m\<bar> < 2 ^ 53 \<Longrightarrow> real_of_int m \<in> binary64"
  unfolding binary64_def
  by (rule CollectI, rule exI [of _ m], rule exI [of _ 0]) simp

lemma zero_in_binary64: "0 \<in> binary64"
  using int_in_binary64 [of 0] by simp

lemma huge_pos: "0 < huge"
  by (simp add: huge_def)

lemma grid_bound: "d \<in> grid \<Longrightarrow> \<bar>d\<bar> \<le> huge"
  using binary64_bound [of d] huge_pos by (auto simp: grid_def)

lemma below_props:
  assumes "- (huge) \<le> x"
  shows "below x \<in> grid" "below x \<le> x" "\<And>d. d \<in> grid \<Longrightarrow> d \<le> x \<Longrightarrow> d \<le> below x"
proof -
  let ?A = "{d \<in> grid. d \<le> x}"
  have f: "finite ?A" using finite_grid by simp
  have ne: "?A \<noteq> {}" using assms by (auto simp: grid_def)
  have "Max ?A \<in> ?A" using f ne by (rule Max_in)
  then show "below x \<in> grid" "below x \<le> x" by (simp_all add: below_def)
  show "\<And>d. d \<in> grid \<Longrightarrow> d \<le> x \<Longrightarrow> d \<le> below x"
    using f by (simp add: below_def)
qed

lemma above_props:
  assumes "x \<le> huge"
  shows "above x \<in> grid" "x \<le> above x" "\<And>d. d \<in> grid \<Longrightarrow> x \<le> d \<Longrightarrow> above x \<le> d"
proof -
  let ?A = "{d \<in> grid. x \<le> d}"
  have f: "finite ?A" using finite_grid by simp
  have ne: "?A \<noteq> {}" using assms by (auto simp: grid_def)
  have "Min ?A \<in> ?A" using f ne by (rule Min_in)
  then show "above x \<in> grid" "x \<le> above x" by (simp_all add: above_def)
  show "\<And>d. d \<in> grid \<Longrightarrow> x \<le> d \<Longrightarrow> above x \<le> d"
    using f by (simp add: above_def)
qed

lemma nearestEven_cases: "nearestEven x = below x \<or> nearestEven x = above x"
  by (simp add: nearestEven_def Let_def)

lemma nearestEven_exact:
  assumes "x \<in> grid"
  shows "nearestEven x = x"
proof -
  have b: "\<bar>x\<bar> \<le> huge" using assms by (rule grid_bound)
  then have r: "- huge \<le> x" "x \<le> huge" by linarith+
  have "below x = x"
    using below_props(2) [OF r(1)] below_props(3) [OF r(1) assms] by simp
  moreover have "above x = x"
    using above_props(2) [OF r(2)] above_props(3) [OF r(2) assms] by simp
  ultimately show ?thesis using nearestEven_cases [of x] by auto
qed





lemma round64_exact: "x \<in> binary64 \<Longrightarrow> round64 x = Finite x"
proof -
  assume x: "x \<in> binary64"
  then have b: "\<bar>x\<bar> < huge" by (rule binary64_bound)
  have "x \<in> grid" using x by (simp add: grid_def)
  then have "nearestEven x = x" by (rule nearestEven_exact)
  then show ?thesis using b by (auto simp: round64_def)
qed








lemma round64_numeral [simp]:
  "numeral k < (2::real) ^ 53 \<Longrightarrow> round64 (numeral k) = Finite (numeral k)"
  "numeral k < (2::real) ^ 53 \<Longrightarrow> round64 (- numeral k) = Finite (- numeral k)"
  "round64 0 = Finite 0"
  "round64 1 = Finite 1"
proof -
  have n: "numeral k \<in> binary64" "- numeral k \<in> binary64" if "numeral k < (2::real) ^ 53"
  proof -
    have "\<bar>numeral k :: int\<bar> < 2 ^ 53"
      using that by (metis abs_numeral of_int_less_numeral_power_cancel_iff of_int_numeral)
    then show "numeral k \<in> binary64" "- numeral k \<in> binary64"
      using int_in_binary64 [of "numeral k"] int_in_binary64 [of "- numeral k"] by simp_all
  qed
  show "numeral k < (2::real) ^ 53 \<Longrightarrow> round64 (numeral k) = Finite (numeral k)"
    using n(1) by (simp add: round64_exact)
  show "numeral k < (2::real) ^ 53 \<Longrightarrow> round64 (- numeral k) = Finite (- numeral k)"
    using n(2) by (simp add: round64_exact)
  show "round64 0 = Finite 0" using round64_exact [OF zero_in_binary64] .
  show "round64 1 = Finite 1" using round64_exact [OF int_in_binary64 [of 1]] by simp
qed












subsection \<open>The delay\<close>




subsection \<open>Settled promises and one round of the loop\<close>


lemma drive_Resolved: "drive opts env fuel (Resolved v, s) = (Resolved v, s)"
  by (induction fuel) (simp_all add: resume_def)

lemma drive_Rejected: "drive opts env fuel (Rejected x, s) = (Rejected x, s)"
  by (induction fuel) (simp_all add: resume_def)

lemma drive_terminal:
  "drive opts env fuel (runAttempt_terminal opts n e s) = runAttempt_terminal opts n e s"
  by (simp add: runAttempt_terminal_def Let_def drive_Resolved drive_Rejected
      split: option.splits)

lemma catch_exhausted:
  "maxAttempts opts \<le> int n \<Longrightarrow> runAttempt_catch opts env n e s = runAttempt_terminal opts n e s"
  by (simp add: runAttempt_catch_def)

lemma catch_refused:
  "shouldRetry opts e n = Inr False \<Longrightarrow> runAttempt_catch opts env n e s = runAttempt_terminal opts n e s"
  by (simp add: runAttempt_catch_def)


lemma drive_catch_retry:
  assumes "int n < maxAttempts opts" "shouldRetry opts e n = Inr True" "\<not> abortRef s"
  shows "drive opts env (Suc fuel) (runAttempt_catch opts env n e s)
         = drive opts env fuel (runAttempt opts env (Suc n) (afterWait n s))"
proof -
  have "resume opts env (fst (runAttempt_catch opts env n e s)) (snd (runAttempt_catch opts env n e s))
        = runAttempt opts env (Suc n) (afterWait n s)"
    using assms
    apply (simp add: runAttempt_catch_def Let_def resume_def pending_def clearTimeout_def
        runAttempt_resumed_def)
    apply (rule arg_cong [where f = "runAttempt opts env (Suc n)"])
    apply (rule hook.equality)
    apply (simp_all add: afterWait_def)
    done
  then show ?thesis by simp
qed


lemma fail_loop:
  assumes fails: "\<forall>k. asyncFn env k = Rejects (errs k) \<or> asyncFn env k = Throws (errs k)"
    and retry: "\<forall>e n. shouldRetry opts e n = Inr True"
    and m: "maxAttempts opts = int m"
  shows "d = m - n \<Longrightarrow> n \<le> m \<Longrightarrow> \<not> abortRef s \<Longrightarrow> attempt s = n \<Longrightarrow> 2 * d + 1 \<le> fuel \<Longrightarrow>
    \<exists>s''. drive opts env fuel (runAttempt opts env n s)
              = runAttempt_terminal opts m (errs (calls s + d)) s''
         \<and> calls s'' = calls s + d + 1 \<and> attempt s'' = m
         \<and> failureLog s'' = failureLog s \<and> successLog s'' = successLog s
         \<and> isSuccess s'' = isSuccess s \<and> isFailed s'' = isFailed s"
proof (induction d arbitrary: n s fuel)
  case 0
  then have nm: "n = m" by simp
  obtain f where f: "fuel = Suc f" using 0 by (cases fuel) auto
  let ?s1 = "s\<lparr>calls := Suc (calls s)\<rparr>"
  from fails have "asyncFn env (calls s) = Rejects (errs (calls s)) \<or> asyncFn env (calls s) = Throws (errs (calls s))"
    by blast
  then have "drive opts env fuel (runAttempt opts env n s) = runAttempt_terminal opts m (errs (calls s)) ?s1"
  proof
    assume "asyncFn env (calls s) = Rejects (errs (calls s))"
    then show ?thesis using 0 nm m f
      by (simp add: runAttempt_def Let_def resume_def runAttempt_settled_def catch_exhausted drive_terminal)
  next
    assume "asyncFn env (calls s) = Throws (errs (calls s))"
    then show ?thesis using 0 nm m
      by (simp add: runAttempt_def Let_def catch_exhausted drive_terminal)
  qed
  then show ?case using 0 nm by (intro exI[of _ ?s1]) simp
next
  case (Suc d)
  then have lt: "int n < maxAttempts opts" using m by simp
  obtain f where f: "fuel = Suc (Suc f)" and f2: "2 * d + 1 \<le> f" using Suc.prems
    by (cases fuel; cases "fuel - 1") auto
  let ?s1 = "s\<lparr>calls := Suc (calls s)\<rparr>"
  let ?s2 = "afterWait n ?s1"
  have na: "\<not> abortRef ?s1" using Suc.prems by simp
  have ih: "\<exists>s''. drive opts env g (runAttempt opts env (Suc n) ?s2)
              = runAttempt_terminal opts m (errs (calls ?s2 + d)) s''
         \<and> calls s'' = calls ?s2 + d + 1 \<and> attempt s'' = m
         \<and> failureLog s'' = failureLog ?s2 \<and> successLog s'' = successLog ?s2
         \<and> isSuccess s'' = isSuccess ?s2 \<and> isFailed s'' = isFailed ?s2" if "2 * d + 1 \<le> g" for g
    using Suc.prems that by (intro Suc.IH) (simp_all add: afterWait_def)
  from fails have "asyncFn env (calls s) = Rejects (errs (calls s)) \<or> asyncFn env (calls s) = Throws (errs (calls s))"
    by blast
  then have "\<exists>g. 2 * d + 1 \<le> g \<and> drive opts env fuel (runAttempt opts env n s) = drive opts env g (runAttempt opts env (Suc n) ?s2)"
  proof
    assume r: "asyncFn env (calls s) = Rejects (errs (calls s))"
    have "drive opts env fuel (runAttempt opts env n s)
          = drive opts env (Suc f) (runAttempt_catch opts env n (errs (calls s)) ?s1)"
      using r Suc.prems f by (simp add: runAttempt_def Let_def resume_def runAttempt_settled_def)
    also have "\<dots> = drive opts env f (runAttempt opts env (Suc n) ?s2)"
      using lt retry na by (intro drive_catch_retry) simp_all
    finally show ?thesis using f2 by blast
  next
    assume r: "asyncFn env (calls s) = Throws (errs (calls s))"
    have "drive opts env fuel (runAttempt opts env n s)
          = drive opts env (Suc (Suc f)) (runAttempt_catch opts env n (errs (calls s)) ?s1)"
      using r Suc.prems f by (simp add: runAttempt_def Let_def del: drive.simps)
    also have "\<dots> = drive opts env (Suc f) (runAttempt opts env (Suc n) ?s2)"
      using lt retry na by (intro drive_catch_retry) simp_all
    finally show ?thesis using f2 by (intro exI[of _ "Suc f"]) simp
  qed
  then obtain g where g: "2 * d + 1 \<le> g"
    and eq: "drive opts env fuel (runAttempt opts env n s) = drive opts env g (runAttempt opts env (Suc n) ?s2)"
    by blast
  from ih[OF g] obtain s'' where
    "drive opts env g (runAttempt opts env (Suc n) ?s2)
              = runAttempt_terminal opts m (errs (calls ?s2 + d)) s''
         \<and> calls s'' = calls ?s2 + d + 1 \<and> attempt s'' = m
         \<and> failureLog s'' = failureLog ?s2 \<and> successLog s'' = successLog ?s2
         \<and> isSuccess s'' = isSuccess ?s2 \<and> isFailed s'' = isFailed ?s2" by blast
  then show ?case using eq by (intro exI[of _ s'']) (simp add: afterWait_def)
qed


subsection \<open>An operation that always fails\<close>

text \<open>
  Claim C1. Let \<open>maxAttempts = m \<ge> 1\<close>, let every invocation of the operation fail
  (by rejection or by throwing) and let \<open>shouldRetry\<close> always return true. Then a
  call of \<open>execute()\<close> that passes the guard, left alone with enough fuel, invokes the
  operation exactly \<open>m\<close> times and ends with \<open>isFailed\<close> set, \<open>isSuccess\<close> clear,
  \<open>attempt = m\<close> and \<open>error\<close> the error of the last invocation; \<open>onFailure\<close> is
  called exactly once, with that error and \<open>m\<close>. The promise resolves with \<open>null\<close>
  unless \<open>onFailure\<close> throws.
\<close>

theorem execute_exhausts_maxAttempts:
  assumes "1 \<le> m" and "maxAttempts opts = int m"
    and "\<forall>k. asyncFn env k = Rejects (errs k) \<or> asyncFn env k = Throws (errs k)"
    and "\<forall>e n. shouldRetry opts e n = Inr True"
    and "onFailure opts = Some f"
    and "2 * m \<le> fuel"
  shows "case drive opts env fuel (execute opts env False s) of
           (p, s') \<Rightarrow>
             calls s' = calls s + m \<and> isFailed s' \<and> \<not> isSuccess s' \<and> attempt s' = m
             \<and> error s' = Some (errs (calls s + m - 1))
             \<and> failureLog s' = failureLog s @ [(errs (calls s + m - 1), m)]
             \<and> p = (case f (errs (calls s + m - 1)) m of
                      None \<Rightarrow> Resolved None | Some x \<Rightarrow> Rejected x)"
proof -
  let ?s0 = "s\<lparr>abortRef := False, attemptRef := 1, attempt := 1, isSuccess := False,
                isFailed := False, error := None, delayMs := Finite 0\<rparr>"
  have ex: "execute opts env False s = runAttempt opts env 1 ?s0"
    by (simp add: execute_def)
  have "\<exists>s''. drive opts env fuel (runAttempt opts env 1 ?s0)
              = runAttempt_terminal opts m (errs (calls ?s0 + (m - 1))) s''
         \<and> calls s'' = calls ?s0 + (m - 1) + 1 \<and> attempt s'' = m
         \<and> failureLog s'' = failureLog ?s0 \<and> successLog s'' = successLog ?s0
         \<and> isSuccess s'' = isSuccess ?s0 \<and> isFailed s'' = isFailed ?s0"
    using assms(1,6) by (intro fail_loop [OF assms(3,4,2)]) simp_all
  then obtain s'' where d: "drive opts env fuel (execute opts env False s)
              = runAttempt_terminal opts m (errs (calls s + (m - 1))) s''"
    and s'': "calls s'' = calls s + (m - 1) + 1" "attempt s'' = m"
      "failureLog s'' = failureLog s" "\<not> isSuccess s''"
    using ex by auto
  have idx: "calls s + (m - 1) = calls s + m - 1" using assms(1) by simp
  show ?thesis
    using s'' assms(1,5) unfolding d idx
    by (simp add: runAttempt_terminal_def Let_def split: option.splits)
qed

theorem execute_exhausts_maxAttempts_witness:
  "case drive (defaultOptions\<lparr>onFailure := Some (\<lambda>e n. None)\<rparr>)
          \<lparr>asyncFn = (\<lambda>k. Rejects ''boom''), mathRandom = (\<lambda>k. 0), mathPow = pow64\<rparr> 6
          (execute (defaultOptions\<lparr>onFailure := Some (\<lambda>e n. None)\<rparr>)
             \<lparr>asyncFn = (\<lambda>k. Rejects ''boom''), mathRandom = (\<lambda>k. 0), mathPow = pow64\<rparr> False
             (initial :: (nat, string) hook)) of
     (p, s') \<Rightarrow> calls s' = 3 \<and> isFailed s' \<and> \<not> isSuccess s' \<and> attempt s' = 3
        \<and> error s' = Some ''boom'' \<and> failureLog s' = [(''boom'', 3)] \<and> p = Resolved None"
  using execute_exhausts_maxAttempts [of 3 "defaultOptions\<lparr>onFailure := Some (\<lambda>e n. None)\<rparr>"
      "\<lparr>asyncFn = (\<lambda>k. Rejects ''boom''), mathRandom = (\<lambda>k. 0), mathPow = pow64\<rparr>" "\<lambda>k. ''boom''"
      "\<lambda>e n. None" 6 "initial :: (nat, string) hook"]
  by (simp add: defaultOptions_def initial_def)

subsection \<open>A failure that \<open>shouldRetry\<close> refuses\<close>

lemma execute_unguarded:
  "execute opts env False s = runAttempt opts env 1
      (s\<lparr>abortRef := False, attemptRef := 1, attempt := 1, isSuccess := False,
         isFailed := False, error := None, delayMs := Finite 0\<rparr>)"
  by (simp add: execute_def)


text \<open>An attempt whose invocation fails reaches the catch block: at once when the
  invocation throws, after one resumption when its promise is rejected.\<close>

lemma attempt_fails_terminal:
  assumes "asyncFn env (calls s) = Rejects e \<or> asyncFn env (calls s) = Throws e"
    and "\<not> abortRef s" and "1 \<le> fuel"
    and "maxAttempts opts \<le> int n \<or> shouldRetry opts e n = Inr False"
  shows "drive opts env fuel (runAttempt opts env n s)
         = runAttempt_terminal opts n e (s\<lparr>calls := Suc (calls s)\<rparr>)"
proof -
  obtain f where f: "fuel = Suc f" using assms(3) by (cases fuel) auto
  have c: "runAttempt_catch opts env n e (s\<lparr>calls := Suc (calls s)\<rparr>)
           = runAttempt_terminal opts n e (s\<lparr>calls := Suc (calls s)\<rparr>)"
    using assms(4) by (auto simp: catch_exhausted catch_refused)
  from assms(1) show ?thesis
  proof
    assume "asyncFn env (calls s) = Rejects e"
    then show ?thesis using assms(2) f c
      by (simp add: runAttempt_def Let_def resume_def runAttempt_settled_def drive_terminal)
  next
    assume "asyncFn env (calls s) = Throws e"
    then show ?thesis using assms(2) c
      by (simp add: runAttempt_def Let_def drive_terminal)
  qed
qed

text \<open>
  Claim C7. When attempt \<open>n\<close> fails and \<open>shouldRetry\<close> returns false for it, the
  sequence ends as it does on exhaustion, whatever \<open>maxAttempts\<close> is: \<open>isFailed\<close> is
  set, the error recorded, \<open>onFailure\<close> called once with the error and \<open>n\<close>, no wait
  is scheduled and no further invocation made; the run is the run of the same hook with
  \<open>maxAttempts = n\<close>. In particular, when \<open>shouldRetry\<close> refuses the first failure
  (with \<open>maxAttempts = 5\<close>, say), \<open>execute()\<close> invokes the operation exactly once,
  ends with \<open>isFailed\<close> and calls \<open>onFailure\<close> once with attempt count 1.
\<close>

theorem shouldRetry_false_is_terminal:
  assumes "asyncFn env (calls s) = Rejects e \<or> asyncFn env (calls s) = Throws e"
    and "shouldRetry opts e n = Inr False"
    and "onFailure opts = Some f"
    and "1 \<le> fuel"
  shows "(\<not> abortRef s \<longrightarrow>
            (case drive opts env fuel (runAttempt opts env n s) of
               (p, s') \<Rightarrow>
                 calls s' = calls s + 1 \<and> isFailed s' \<and> error s' = Some e
                 \<and> failureLog s' = failureLog s @ [(e, n)] \<and> timers s' = timers s
                 \<and> attempt s' = attempt s
                 \<and> p = (case f e n of None \<Rightarrow> Resolved None | Some x \<Rightarrow> Rejected x))
            \<and> drive opts env fuel (runAttempt opts env n s)
              = drive (opts\<lparr>maxAttempts := int n\<rparr>) env fuel
                  (runAttempt (opts\<lparr>maxAttempts := int n\<rparr>) env n s))
       \<and> (n = 1 \<longrightarrow>
            (case drive opts env fuel (execute opts env False s) of
               (p, s') \<Rightarrow>
                 calls s' = calls s + 1 \<and> isFailed s' \<and> \<not> isSuccess s' \<and> attempt s' = 1
                 \<and> error s' = Some e \<and> failureLog s' = failureLog s @ [(e, 1)]
                 \<and> timers s' = timers s \<and> isRetrying s' = isRetrying s
                 \<and> p = (case f e 1 of None \<Rightarrow> Resolved None | Some x \<Rightarrow> Rejected x)))"
proof (intro conjI impI)
  assume na: "\<not> abortRef s"
  have a: "drive opts env fuel (runAttempt opts env n s)
           = runAttempt_terminal opts n e (s\<lparr>calls := Suc (calls s)\<rparr>)"
    using assms(1,2,4) na by (intro attempt_fails_terminal) simp_all
  have b: "drive (opts\<lparr>maxAttempts := int n\<rparr>) env fuel
             (runAttempt (opts\<lparr>maxAttempts := int n\<rparr>) env n s)
           = runAttempt_terminal (opts\<lparr>maxAttempts := int n\<rparr>) n e (s\<lparr>calls := Suc (calls s)\<rparr>)"
    using assms(1,4) na by (intro attempt_fails_terminal) simp_all
  have c: "runAttempt_terminal (opts\<lparr>maxAttempts := int n\<rparr>) n e = runAttempt_terminal opts n e"
    by (simp add: runAttempt_terminal_def fun_eq_iff)
  show "case drive opts env fuel (runAttempt opts env n s) of
               (p, s') \<Rightarrow>
                 calls s' = calls s + 1 \<and> isFailed s' \<and> error s' = Some e
                 \<and> failureLog s' = failureLog s @ [(e, n)] \<and> timers s' = timers s
                 \<and> attempt s' = attempt s
                 \<and> p = (case f e n of None \<Rightarrow> Resolved None | Some x \<Rightarrow> Rejected x)"
    unfolding a using assms(3)
    by (simp add: runAttempt_terminal_def Let_def split: option.splits)
  show "drive opts env fuel (runAttempt opts env n s)
              = drive (opts\<lparr>maxAttempts := int n\<rparr>) env fuel
                  (runAttempt (opts\<lparr>maxAttempts := int n\<rparr>) env n s)"
    unfolding a b c ..
next
  assume h: "n = 1"
  let ?s0 = "s\<lparr>abortRef := False, attemptRef := 1, attempt := 1, isSuccess := False,
                isFailed := False, error := None, delayMs := Finite 0\<rparr>"
  have a: "drive opts env fuel (execute opts env False s)
           = runAttempt_terminal opts 1 e (?s0\<lparr>calls := Suc (calls ?s0)\<rparr>)"
    unfolding execute_unguarded
    using h assms(1,2,4) by (intro attempt_fails_terminal) simp_all
  show "case drive opts env fuel (execute opts env False s) of
               (p, s') \<Rightarrow>
                 calls s' = calls s + 1 \<and> isFailed s' \<and> \<not> isSuccess s' \<and> attempt s' = 1
                 \<and> error s' = Some e \<and> failureLog s' = failureLog s @ [(e, 1)]
                 \<and> timers s' = timers s \<and> isRetrying s' = isRetrying s
                 \<and> p = (case f e 1 of None \<Rightarrow> Resolved None | Some x \<Rightarrow> Rejected x)"
    unfolding a using assms(3) h
    by (simp add: runAttempt_terminal_def Let_def split: option.splits)
qed

theorem shouldRetry_false_is_terminal_witness:
  "case drive (defaultOptions\<lparr>maxAttempts := 5, shouldRetry := (\<lambda>e n. Inr False),
                               onFailure := Some (\<lambda>e n. None)\<rparr>)
          \<lparr>asyncFn = (\<lambda>k. Rejects ''boom''), mathRandom = (\<lambda>k. 0), mathPow = pow64\<rparr> 1
          (execute (defaultOptions\<lparr>maxAttempts := 5, shouldRetry := (\<lambda>e n. Inr False),
                               onFailure := Some (\<lambda>e n. None)\<rparr>)
             \<lparr>asyncFn = (\<lambda>k. Rejects ''boom''), mathRandom = (\<lambda>k. 0), mathPow = pow64\<rparr> False
             (initial :: (nat, string) hook)) of
     (p, s') \<Rightarrow> calls s' = 1 \<and> isFailed s' \<and> attempt s' = 1
        \<and> error s' = Some ''boom'' \<and> failureLog s' = [(''boom'', 1)] \<and> p = Resolved None"
  using shouldRetry_false_is_terminal [of
      "\<lparr>asyncFn = (\<lambda>k. Rejects ''boom''), mathRandom = (\<lambda>k. 0), mathPow = pow64\<rparr>"
      "initial :: (nat, string) hook" "''boom''"
      "defaultOptions\<lparr>maxAttempts := 5, shouldRetry := (\<lambda>e n. Inr False),
                               onFailure := Some (\<lambda>e n. None)\<rparr>" 1
      "\<lambda>e n. None" 1]
  by (simp add: defaultOptions_def initial_def split: prod.splits)


subsection \<open>One failure, then success\<close>

lemma fuel_cases:
  "fuel = 0 \<or> fuel = Suc 0 \<or> fuel = Suc (Suc 0) \<or> (\<exists>g. fuel = Suc (Suc (Suc g)))"
  by (cases fuel; cases "fuel - 1"; cases "fuel - 2") auto

text \<open>
  Claim C6. With \<open>maxAttempts = 3\<close> (any value above 1) and an operation that fails
  on its first invocation and succeeds with \<open>v\<close> on its second, \<open>execute()\<close>
  resolves with \<open>v\<close>; the hook ends with \<open>isSuccess\<close> set and \<open>isFailed\<close> clear,
  the operation has been invoked exactly twice and \<open>onSuccess\<close> called exactly once,
  with \<open>v\<close>. Whenever the promise is resolved, the call of \<open>onSuccess\<close> has already
  been made.
\<close>

theorem fails_once_then_succeeds:
  assumes "asyncFn env (calls s) = Rejects e \<or> asyncFn env (calls s) = Throws e"
    and "asyncFn env (Suc (calls s)) = Resolves v"
    and "1 < maxAttempts opts"
    and "shouldRetry opts e 1 = Inr True"
    and "onSuccess opts = Some g" and "g v = None"
  shows "(3 \<le> fuel \<longrightarrow>
            (case drive opts env fuel (execute opts env False s) of
               (p, s') \<Rightarrow>
                 p = Resolved (Some v) \<and> isSuccess s' \<and> \<not> isFailed s' \<and> \<not> isRetrying s'
                 \<and> calls s' = calls s + 2 \<and> attempt s' = 2 \<and> error s' = None
                 \<and> successLog s' = successLog s @ [v] \<and> failureLog s' = failureLog s))
       \<and> (case drive opts env fuel (execute opts env False s) of
            (p, s') \<Rightarrow> (\<exists>r. p = Resolved r) \<longrightarrow> successLog s' = successLog s @ [v])"
proof -
  let ?s0 = "s\<lparr>abortRef := False, attemptRef := 1, attempt := 1, isSuccess := False,
                isFailed := False, error := None, delayMs := Finite 0\<rparr>"
  let ?s1 = "?s0\<lparr>calls := Suc (calls ?s0)\<rparr>"
  let ?s2 = "afterWait 1 ?s1"
  let ?s3 = "?s2\<lparr>calls := Suc (calls ?s2)\<rparr>"
  let ?s4 = "?s3\<lparr>isSuccess := True, successLog := successLog ?s3 @ [v]\<rparr>"
  have lt: "int 1 < maxAttempts opts" using assms(3) by simp
  have wait: "drive opts env (Suc k) (runAttempt_catch opts env 1 e ?s1)
              = drive opts env k (runAttempt opts env (Suc 1) ?s2)" for k
    using lt assms(4) by (intro drive_catch_retry) simp_all
  have second: "runAttempt opts env (Suc 1) ?s2 = (AwaitOp 2 (Suc (calls s)), ?s3)"
    using assms(2) by (simp add: runAttempt_def Let_def afterWait_def)
  have fin: "resume opts env (AwaitOp 2 (Suc (calls s))) ?s3 = (Resolved (Some v), ?s4)"
    using assms(2,5,6) by (simp add: resume_def runAttempt_settled_def Let_def)
  have pend: "\<exists>n h. fst (runAttempt_catch opts env 1 e ?s1) = AwaitTimer n h"
    using lt assms(4) by (simp add: runAttempt_catch_def Let_def)
  from assms(1) show ?thesis
  proof
    assume r: "asyncFn env (calls s) = Rejects e"
    have first: "execute opts env False s = (AwaitOp 1 (calls s), ?s1)"
      using r by (simp add: execute_def runAttempt_def Let_def)
    have caught: "resume opts env (AwaitOp 1 (calls s)) ?s1 = runAttempt_catch opts env 1 e ?s1"
      using r by (simp add: resume_def runAttempt_settled_def)
    have d0: "drive opts env 0 (execute opts env False s) = (AwaitOp 1 (calls s), ?s1)"
      using first by simp
    have d1: "drive opts env (Suc 0) (execute opts env False s) = runAttempt_catch opts env 1 e ?s1"
      using first caught by simp
    have d2: "drive opts env (Suc (Suc 0)) (execute opts env False s) = (AwaitOp 2 (Suc (calls s)), ?s3)"
      using first caught wait [of 0] second by simp
    have d3: "drive opts env (Suc (Suc (Suc k))) (execute opts env False s) = (Resolved (Some v), ?s4)" for k
      using first caught wait [of "Suc k"] second fin by (simp add: drive_Resolved)
    from fuel_cases [of fuel] show ?thesis
      using pend
      by (elim disjE exE) (simp_all only: d0 d1 d2 d3, auto simp: afterWait_def)
  next
    assume r: "asyncFn env (calls s) = Throws e"
    have first: "execute opts env False s = runAttempt_catch opts env 1 e ?s1"
      using r by (simp add: execute_def runAttempt_def Let_def)
    have d0: "drive opts env 0 (execute opts env False s) = runAttempt_catch opts env 1 e ?s1"
      using first by simp
    have d1: "drive opts env (Suc 0) (execute opts env False s) = (AwaitOp 2 (Suc (calls s)), ?s3)"
      using first wait [of 0] second by simp
    have d2: "drive opts env (Suc (Suc k)) (execute opts env False s) = (Resolved (Some v), ?s4)" for k
      using first wait [of "Suc k"] second fin by (simp add: drive_Resolved)
    from fuel_cases [of fuel] show ?thesis
      using pend
      by (elim disjE exE) (simp_all only: d0 d1 d2, auto simp: afterWait_def)
  qed
qed

theorem fails_once_then_succeeds_witness:
  "case drive (defaultOptions\<lparr>initialDelayMs := Finite 10, onSuccess := Some (\<lambda>v. None)\<rparr>)
          \<lparr>asyncFn = (\<lambda>k. if k = 0 then Rejects ''Fail 1'' else Resolves (7::nat)),
           mathRandom = (\<lambda>k. 0), mathPow = pow64\<rparr> 3
          (execute (defaultOptions\<lparr>initialDelayMs := Finite 10, onSuccess := Some (\<lambda>v. None)\<rparr>)
             \<lparr>asyncFn = (\<lambda>k. if k = 0 then Rejects ''Fail 1'' else Resolves (7::nat)),
              mathRandom = (\<lambda>k. 0), mathPow = pow64\<rparr> False
             (initial :: (nat, string) hook)) of
     (p, s') \<Rightarrow> p = Resolved (Some 7) \<and> isSuccess s' \<and> \<not> isFailed s' \<and> calls s' = 2
        \<and> successLog s' = [7]"
  using fails_once_then_succeeds [of
      "\<lparr>asyncFn = (\<lambda>k. if k = 0 then Rejects ''Fail 1'' else Resolves (7::nat)),
        mathRandom = (\<lambda>k. 0), mathPow = pow64\<rparr>"
      "initial :: (nat, string) hook" "''Fail 1''" 7
      "defaultOptions\<lparr>initialDelayMs := Finite 10, onSuccess := Some (\<lambda>v. None)\<rparr>"
      "\<lambda>v. None" 3]
  by (simp add: defaultOptions_def initial_def split: prod.splits)


subsection \<open>Callbacks that throw\<close>

lemma attempt_fails_settled:
  assumes "asyncFn env (calls s) = Rejects e \<or> asyncFn env (calls s) = Throws e"
    and "\<not> abortRef s" and "1 \<le> fuel"
    and "runAttempt_catch opts env n e (s\<lparr>calls := Suc (calls s)\<rparr>) = (Rejected x, s')"
  shows "drive opts env fuel (runAttempt opts env n s) = (Rejected x, s')"
proof -
  obtain f where f: "fuel = Suc f" using assms(3) by (cases fuel) auto
  from assms(1) show ?thesis
  proof
    assume "asyncFn env (calls s) = Rejects e"
    then show ?thesis using assms(2,4) f
      by (simp add: runAttempt_def Let_def resume_def runAttempt_settled_def drive_Rejected)
  next
    assume "asyncFn env (calls s) = Throws e"
    then show ?thesis using assms(2,4)
      by (simp add: runAttempt_def Let_def drive_Rejected)
  qed
qed

lemma catch_callback_throws:
  assumes "(int n < maxAttempts opts \<and> shouldRetry opts e n = Inl x)
         \<or> ((maxAttempts opts \<le> int n \<or> shouldRetry opts e n = Inr False)
            \<and> onFailure opts = Some f \<and> f e n = Some x)"
  shows "\<exists>s'. runAttempt_catch opts env n e s = (Rejected x, s')"
  using assms
  by (auto simp: runAttempt_catch_def runAttempt_terminal_def Let_def)

text \<open>
  Claim C9. When attempt \<open>n\<close> fails and \<open>shouldRetry\<close>, called for this failure, throws
  \<open>x\<close>, or the failure is terminal and \<open>onFailure\<close> throws \<open>x\<close>, the promise returned
  by \<open>execute()\<close> is rejected with \<open>x\<close>: the \<open>catch\<close> block swallows the errors of the
  operation, not those of these two callbacks.
\<close>

theorem callback_exception_rejects:
  assumes "asyncFn env (calls s) = Rejects e \<or> asyncFn env (calls s) = Throws e"
    and "1 \<le> fuel"
    and "(int n < maxAttempts opts \<and> shouldRetry opts e n = Inl x)
       \<or> ((maxAttempts opts \<le> int n \<or> shouldRetry opts e n = Inr False)
          \<and> onFailure opts = Some f \<and> f e n = Some x)"
  shows "(\<not> abortRef s \<longrightarrow> fst (drive opts env fuel (runAttempt opts env n s)) = Rejected x)
       \<and> (n = 1 \<longrightarrow> fst (drive opts env fuel (execute opts env False s)) = Rejected x)"
proof (intro conjI impI)
  assume na: "\<not> abortRef s"
  obtain s' where "runAttempt_catch opts env n e (s\<lparr>calls := Suc (calls s)\<rparr>) = (Rejected x, s')"
    using catch_callback_throws [OF assms(3)] by blast
  then have "drive opts env fuel (runAttempt opts env n s) = (Rejected x, s')"
    using assms(1,2) na by (intro attempt_fails_settled) simp_all
  then show "fst (drive opts env fuel (runAttempt opts env n s)) = Rejected x" by simp
next
  assume h: "n = 1"
  let ?s0 = "s\<lparr>abortRef := False, attemptRef := 1, attempt := 1, isSuccess := False,
                isFailed := False, error := None, delayMs := Finite 0\<rparr>"
  obtain s' where "runAttempt_catch opts env 1 e (?s0\<lparr>calls := Suc (calls ?s0)\<rparr>) = (Rejected x, s')"
    using catch_callback_throws [OF assms(3)] h by blast
  then have "drive opts env fuel (runAttempt opts env 1 ?s0) = (Rejected x, s')"
    using assms(1,2) by (intro attempt_fails_settled) simp_all
  then show "fst (drive opts env fuel (execute opts env False s)) = Rejected x"
    by (simp add: execute_unguarded)
qed

theorem callback_exception_rejects_witness:
  "fst (drive (defaultOptions\<lparr>shouldRetry := (\<lambda>e n. Inl ''bad predicate'')\<rparr>)
          \<lparr>asyncFn = (\<lambda>k. Rejects ''boom''), mathRandom = (\<lambda>k. 0), mathPow = pow64\<rparr> 1
          (execute (defaultOptions\<lparr>shouldRetry := (\<lambda>e n. Inl ''bad predicate'')\<rparr>)
             \<lparr>asyncFn = (\<lambda>k. Rejects ''boom''), mathRandom = (\<lambda>k. 0), mathPow = pow64\<rparr> False
             (initial :: (nat, string) hook)))
     = Rejected ''bad predicate''
   \<and> fst (drive (defaultOptions\<lparr>maxAttempts := 1, onFailure := Some (\<lambda>e n. Some ''bad callback'')\<rparr>)
          \<lparr>asyncFn = (\<lambda>k. Throws ''boom''), mathRandom = (\<lambda>k. 0), mathPow = pow64\<rparr> 1
          (execute (defaultOptions\<lparr>maxAttempts := 1, onFailure := Some (\<lambda>e n. Some ''bad callback'')\<rparr>)
             \<lparr>asyncFn = (\<lambda>k. Throws ''boom''), mathRandom = (\<lambda>k. 0), mathPow = pow64\<rparr> False
             (initial :: (nat, string) hook)))
     = Rejected ''bad callback''"
  using callback_exception_rejects [of
      "\<lparr>asyncFn = (\<lambda>k. Rejects ''boom''), mathRandom = (\<lambda>k. 0), mathPow = pow64\<rparr>"
      "initial :: (nat, string) hook" "''boom''" 1 1
      "defaultOptions\<lparr>shouldRetry := (\<lambda>e n. Inl ''bad predicate'')\<rparr>" "''bad predicate''"]
    callback_exception_rejects [of
      "\<lparr>asyncFn = (\<lambda>k. Throws ''boom''), mathRandom = (\<lambda>k. 0), mathPow = pow64\<rparr>"
      "initial :: (nat, string) hook" "''boom''" 1 1
      "defaultOptions\<lparr>maxAttempts := 1, onFailure := Some (\<lambda>e n. Some ''bad callback'')\<rparr>"
      "''bad callback''" "\<lambda>e n. Some ''bad callback''"]
  by (simp add: defaultOptions_def initial_def)

text \<open>
  Claim C10. When the operation succeeds at attempt \<open>n\<close> and \<open>onSuccess\<close> throws
  \<open>x\<close>, the \<open>catch\<close> block of the attempt runs with \<open>x\<close>, after \<open>isSuccess\<close> has
  been set: if the attempt is the last one or \<open>shouldRetry\<close> refuses \<open>x\<close>, the
  sequence ends with both \<open>isSuccess\<close> and \<open>isFailed\<close> set and \<open>onFailure\<close> called
  with \<open>x\<close>; otherwise a wait is scheduled with \<open>isSuccess\<close> set, and the operation
  is invoked again after it.
\<close>

theorem onSuccess_exception_is_failed_attempt:
  assumes "asyncFn env (calls s) = Resolves v"
    and "onSuccess opts = Some g" and "g v = Some x"
    and "\<not> abortRef s"
  shows "drive opts env (Suc 0) (runAttempt opts env n s)
           = runAttempt_catch opts env n x
               (s\<lparr>calls := Suc (calls s), isSuccess := True, successLog := successLog s @ [v]\<rparr>)
       \<and> ((maxAttempts opts \<le> int n \<or> shouldRetry opts x n = Inr False)
            \<and> onFailure opts = Some f \<and> 1 \<le> fuel \<longrightarrow>
          (case drive opts env fuel (runAttempt opts env n s) of
             (p, s') \<Rightarrow>
               isSuccess s' \<and> isFailed s' \<and> error s' = Some x \<and> calls s' = calls s + 1
               \<and> successLog s' = successLog s @ [v] \<and> failureLog s' = failureLog s @ [(x, n)]
               \<and> p = (case f x n of None \<Rightarrow> Resolved None | Some y \<Rightarrow> Rejected y)))
       \<and> (int n < maxAttempts opts \<and> shouldRetry opts x n = Inr True \<longrightarrow>
          (case drive opts env (Suc 0) (runAttempt opts env n s) of
             (p, s') \<Rightarrow>
               isSuccess s' \<and> isRetrying s' \<and> isFailed s' = isFailed s
               \<and> p = AwaitTimer n (nextTimer s) \<and> pending (nextTimer s) s')
          \<and> calls (snd (drive opts env (Suc (Suc 0)) (runAttempt opts env n s))) = calls s + 2)"
proof -
  let ?s1 = "s\<lparr>calls := Suc (calls s), isSuccess := True, successLog := successLog s @ [v]\<rparr>"
  have first: "runAttempt opts env n s = (AwaitOp n (calls s), s\<lparr>calls := Suc (calls s)\<rparr>)"
    using assms(1,4) by (simp add: runAttempt_def Let_def)
  have caught: "resume opts env (AwaitOp n (calls s)) (s\<lparr>calls := Suc (calls s)\<rparr>)
        = runAttempt_catch opts env n x ?s1"
    using assms(1,2,3) by (simp add: resume_def runAttempt_settled_def Let_def)
  have d1: "drive opts env (Suc k) (runAttempt opts env n s)
            = drive opts env k (runAttempt_catch opts env n x ?s1)" for k
    using first caught by simp
  have A: "drive opts env (Suc 0) (runAttempt opts env n s) = runAttempt_catch opts env n x ?s1"
    using d1 [of 0] by simp
  have B: "case drive opts env fuel (runAttempt opts env n s) of
             (p, s') \<Rightarrow>
               isSuccess s' \<and> isFailed s' \<and> error s' = Some x \<and> calls s' = calls s + 1
               \<and> successLog s' = successLog s @ [v] \<and> failureLog s' = failureLog s @ [(x, n)]
               \<and> p = (case f x n of None \<Rightarrow> Resolved None | Some y \<Rightarrow> Rejected y)"
    if t: "maxAttempts opts \<le> int n \<or> shouldRetry opts x n = Inr False"
      and o: "onFailure opts = Some f" and fu: "1 \<le> fuel"
  proof -
    obtain k where k: "fuel = Suc k" using fu by (cases fuel) auto
    have "runAttempt_catch opts env n x ?s1 = runAttempt_terminal opts n x ?s1"
      using t by (auto simp: catch_exhausted catch_refused)
    then have "drive opts env fuel (runAttempt opts env n s) = runAttempt_terminal opts n x ?s1"
      unfolding k d1 by (simp add: drive_terminal)
    then show ?thesis using o
      by (simp add: runAttempt_terminal_def Let_def split: option.splits)
  qed
  have C: "(case drive opts env (Suc 0) (runAttempt opts env n s) of
             (p, s') \<Rightarrow>
               isSuccess s' \<and> isRetrying s' \<and> isFailed s' = isFailed s
               \<and> p = AwaitTimer n (nextTimer s) \<and> pending (nextTimer s) s')
          \<and> calls (snd (drive opts env (Suc (Suc 0)) (runAttempt opts env n s))) = calls s + 2"
    if lt: "int n < maxAttempts opts" and r: "shouldRetry opts x n = Inr True"
  proof -
    have "drive opts env (Suc (Suc 0)) (runAttempt opts env n s)
          = runAttempt opts env (Suc n) (afterWait n ?s1)"
      unfolding d1 using lt r assms(4) by (subst drive_catch_retry) simp_all
    then have "calls (snd (drive opts env (Suc (Suc 0)) (runAttempt opts env n s))) = calls s + 2"
      using assms(4)
      by (simp add: runAttempt_def afterWait_def Let_def runAttempt_catch_def
          runAttempt_terminal_def split: call.splits sum.splits option.splits)
    then show ?thesis
      unfolding A using lt r by (simp add: runAttempt_catch_def Let_def pending_def)
  qed
  have B': "(maxAttempts opts \<le> int n \<or> shouldRetry opts x n = Inr False)
            \<and> onFailure opts = Some f \<and> 1 \<le> fuel \<longrightarrow>
          (case drive opts env fuel (runAttempt opts env n s) of
             (p, s') \<Rightarrow>
               isSuccess s' \<and> isFailed s' \<and> error s' = Some x \<and> calls s' = calls s + 1
               \<and> successLog s' = successLog s @ [v] \<and> failureLog s' = failureLog s @ [(x, n)]
               \<and> p = (case f x n of None \<Rightarrow> Resolved None | Some y \<Rightarrow> Rejected y))"
    by (intro impI, elim conjE, rule B)
  have C': "int n < maxAttempts opts \<and> shouldRetry opts x n = Inr True \<longrightarrow>
          (case drive opts env (Suc 0) (runAttempt opts env n s) of
             (p, s') \<Rightarrow>
               isSuccess s' \<and> isRetrying s' \<and> isFailed s' = isFailed s
               \<and> p = AwaitTimer n (nextTimer s) \<and> pending (nextTimer s) s')
          \<and> calls (snd (drive opts env (Suc (Suc 0)) (runAttempt opts env n s))) = calls s + 2"
    by (intro impI, elim conjE, rule C)
  show ?thesis by (intro conjI) (fact A, fact B', fact C')
qed

theorem onSuccess_exception_is_failed_attempt_witness:
  "(case drive (defaultOptions\<lparr>maxAttempts := 1, onSuccess := Some (\<lambda>v. Some ''bad callback''),
                             onFailure := Some (\<lambda>e n. None)\<rparr>)
          \<lparr>asyncFn = (\<lambda>k. Resolves (7::nat)), mathRandom = (\<lambda>k. 0), mathPow = pow64\<rparr> 1
          (execute (defaultOptions\<lparr>maxAttempts := 1, onSuccess := Some (\<lambda>v. Some ''bad callback''),
                             onFailure := Some (\<lambda>e n. None)\<rparr>)
             \<lparr>asyncFn = (\<lambda>k. Resolves (7::nat)), mathRandom = (\<lambda>k. 0), mathPow = pow64\<rparr> False
             (initial :: (nat, string) hook)) of
     (p, s') \<Rightarrow> isSuccess s' \<and> isFailed s' \<and> error s' = Some ''bad callback'' \<and> calls s' = 1
        \<and> successLog s' = [7] \<and> failureLog s' = [(''bad callback'', 1)] \<and> p = Resolved None)
   \<and> (case drive (defaultOptions\<lparr>onSuccess := Some (\<lambda>v. Some ''bad callback'')\<rparr>)
          \<lparr>asyncFn = (\<lambda>k. Resolves (7::nat)), mathRandom = (\<lambda>k. 0), mathPow = pow64\<rparr> 1
          (execute (defaultOptions\<lparr>onSuccess := Some (\<lambda>v. Some ''bad callback'')\<rparr>)
             \<lparr>asyncFn = (\<lambda>k. Resolves (7::nat)), mathRandom = (\<lambda>k. 0), mathPow = pow64\<rparr> False
             (initial :: (nat, string) hook)) of
     (p, s') \<Rightarrow> isSuccess s' \<and> isRetrying s' \<and> \<not> isFailed s' \<and> p = AwaitTimer 1 1)"
  using onSuccess_exception_is_failed_attempt [of
      "\<lparr>asyncFn = (\<lambda>k. Resolves (7::nat)), mathRandom = (\<lambda>k. 0), mathPow = pow64\<rparr>"
      "(initial :: (nat, string) hook)\<lparr>abortRef := False, attemptRef := 1, attempt := 1,
          isSuccess := False, isFailed := False, error := None, delayMs := Finite 0\<rparr>" 7
      "defaultOptions\<lparr>maxAttempts := 1, onSuccess := Some (\<lambda>v. Some ''bad callback''),
                             onFailure := Some (\<lambda>e n. None)\<rparr>"
      "\<lambda>v. Some ''bad callback''" "''bad callback''" 1 "\<lambda>e n. None" 1]
    onSuccess_exception_is_failed_attempt [of
      "\<lparr>asyncFn = (\<lambda>k. Resolves (7::nat)), mathRandom = (\<lambda>k. 0), mathPow = pow64\<rparr>"
      "(initial :: (nat, string) hook)\<lparr>abortRef := False, attemptRef := 1, attempt := 1,
          isSuccess := False, isFailed := False, error := None, delayMs := Finite 0\<rparr>" 7
      "defaultOptions\<lparr>onSuccess := Some (\<lambda>v. Some ''bad callback'')\<rparr>"
      "\<lambda>v. Some ''bad callback''" "''bad callback''" 1 "\<lambda>e n. None" 1]
  by (simp add: defaultOptions_def initial_def execute_def split: prod.splits)


subsection \<open>Errors of the operation stay inside the hook\<close>

lemma terminal_contained:
  assumes "\<forall>f e n. onFailure opts = Some f \<longrightarrow> f e n = None"
    and "n = attempt s" and "0 < calls s" and "failure (asyncFn env (calls s - 1)) = Some e"
  shows "contained opts env (snd (runAttempt_terminal opts n e s))
           (fst (runAttempt_terminal opts n e s))"
  using assms by (auto simp: runAttempt_terminal_def Let_def split: option.splits)

lemma catch_contained:
  assumes "\<forall>e n. \<exists>b. shouldRetry opts e n = Inr b"
    and "\<forall>f e n. onFailure opts = Some f \<longrightarrow> f e n = None"
    and "\<not> isFailed s" and "n = attempt s" and "0 < calls s"
    and "failure (asyncFn env (calls s - 1)) = Some e"
  shows "contained opts env (snd (runAttempt_catch opts env n e s))
           (fst (runAttempt_catch opts env n e s))"
proof -
  obtain b where b: "shouldRetry opts e n = Inr b" using assms(1) by blast
  show ?thesis
  proof (cases "maxAttempts opts \<le> int n \<or> \<not> b")
    case True
    then have "runAttempt_catch opts env n e s = runAttempt_terminal opts n e s"
      using b by (auto simp: runAttempt_catch_def)
    then show ?thesis using terminal_contained [OF assms(2,4,5,6)] by simp
  next
    case False
    then show ?thesis using b assms(3,4)
      by (simp add: runAttempt_catch_def Let_def)
  qed
qed

lemma runAttempt_contained:
  assumes "\<forall>e n. \<exists>b. shouldRetry opts e n = Inr b"
    and "\<forall>f e n. onFailure opts = Some f \<longrightarrow> f e n = None"
    and "\<not> isFailed s" and "n = attempt s"
  shows "contained opts env (snd (runAttempt opts env n s)) (fst (runAttempt opts env n s))"
proof (cases "abortRef s")
  case True
  then show ?thesis using assms(3) by (simp add: runAttempt_def)
next
  case False
  show ?thesis
  proof (cases "asyncFn env (calls s)")
    case (Throws e)
    have "contained opts env (snd (runAttempt_catch opts env n e (s\<lparr>calls := Suc (calls s)\<rparr>)))
            (fst (runAttempt_catch opts env n e (s\<lparr>calls := Suc (calls s)\<rparr>)))"
      using assms(3,4) Throws by (intro catch_contained [OF assms(1,2)]) simp_all
    then show ?thesis using False Throws by (simp add: runAttempt_def Let_def)
  next
    case (Resolves v)
    then show ?thesis using False assms(3,4) by (simp add: runAttempt_def Let_def)
  next
    case (Rejects e)
    then show ?thesis using False assms(3,4) by (simp add: runAttempt_def Let_def)
  qed
qed

lemma settled_contained:
  assumes "\<forall>e n. \<exists>b. shouldRetry opts e n = Inr b"
    and "\<forall>f e n. onFailure opts = Some f \<longrightarrow> f e n = None"
    and "\<forall>g v. onSuccess opts = Some g \<longrightarrow> g v = None"
    and "contained opts env s (AwaitOp n k)"
  shows "contained opts env (snd (runAttempt_settled opts env n k s))
           (fst (runAttempt_settled opts env n k s))"
proof -
  have s: "n = attempt s" "Suc k = calls s" "\<not> isFailed s" using assms(4) by simp_all
  show ?thesis
  proof (cases "asyncFn env k")
    case (Throws e)
    then show ?thesis using s by (simp add: runAttempt_settled_def)
  next
    case (Rejects e)
    have "failure (asyncFn env (calls s - 1)) = Some e"
      using Rejects s(2) by (metis diff_Suc_1 failure.simps(2))
    then have "contained opts env (snd (runAttempt_catch opts env n e s))
            (fst (runAttempt_catch opts env n e s))"
      using s by (intro catch_contained [OF assms(1,2)]) simp_all
    then show ?thesis using Rejects by (simp add: runAttempt_settled_def)
  next
    case (Resolves v)
    show ?thesis
    proof (cases "onSuccess opts")
      case None
      then show ?thesis using Resolves s by (simp add: runAttempt_settled_def Let_def)
    next
      case (Some g)
      then have "g v = None" using assms(3) by blast
      then show ?thesis using Resolves Some s by (simp add: runAttempt_settled_def Let_def)
    qed
  qed
qed

lemma resume_contained:
  assumes "\<forall>e n. \<exists>b. shouldRetry opts e n = Inr b"
    and "\<forall>f e n. onFailure opts = Some f \<longrightarrow> f e n = None"
    and "\<forall>g v. onSuccess opts = Some g \<longrightarrow> g v = None"
    and "contained opts env s p"
  shows "contained opts env (snd (resume opts env p s)) (fst (resume opts env p s))"
proof (cases p)
  case (AwaitOp n k)
  then show ?thesis using settled_contained [OF assms(1,2,3)] assms(4) by (simp add: resume_def)
next
  case (AwaitTimer n h)
  then have s: "n = attempt s" "\<not> isFailed s" using assms(4) by simp_all
  show ?thesis
  proof (cases "pending h s \<and> \<not> abortRef s")
    case True
    let ?s' = "(clearTimeout h s)\<lparr>attemptRef := n + 1, attempt := n + 1, isRetrying := False,
                 delayMs := Finite 0\<rparr>"
    have "contained opts env (snd (runAttempt opts env (n + 1) ?s'))
            (fst (runAttempt opts env (n + 1) ?s'))"
      using s by (intro runAttempt_contained [OF assms(1,2)]) (simp_all add: clearTimeout_def)
    then show ?thesis using AwaitTimer True
      by (simp add: resume_def runAttempt_resumed_def Let_def clearTimeout_def)
  next
    case False
    then show ?thesis using AwaitTimer s assms(4)
      by (auto simp: resume_def runAttempt_resumed_def clearTimeout_def)
  qed
next
  case (Resolved v)
  then show ?thesis using assms(4) by (simp add: resume_def)
next
  case (Rejected x)
  then show ?thesis using assms(4) by (simp add: resume_def)
qed

lemma drive_contained:
  assumes "\<forall>e n. \<exists>b. shouldRetry opts e n = Inr b"
    and "\<forall>f e n. onFailure opts = Some f \<longrightarrow> f e n = None"
    and "\<forall>g v. onSuccess opts = Some g \<longrightarrow> g v = None"
  shows "contained opts env (snd ps) (fst ps) \<Longrightarrow>
           contained opts env (snd (drive opts env fuel ps)) (fst (drive opts env fuel ps))"
proof (induction fuel arbitrary: ps)
  case 0
  then show ?case by simp
next
  case (Suc fuel)
  have "contained opts env (snd (resume opts env (fst ps) (snd ps)))
          (fst (resume opts env (fst ps) (snd ps)))"
    using resume_contained [OF assms, where s = "snd ps" and p = "fst ps"] Suc.prems by simp
  then show ?case using Suc.IH by simp
qed

text \<open>Where a failed attempt arrives: the catch block is reached at once when the
  invocation throws and after one resumption when its promise is rejected.\<close>

lemma attempt_fails_caught:
  assumes "asyncFn env (calls s) = Rejects e \<or> asyncFn env (calls s) = Throws e"
    and "\<not> abortRef s"
  shows "(case asyncFn env (calls s) of
            Throws _ \<Rightarrow> runAttempt opts env n s
          | _ \<Rightarrow> drive opts env (Suc 0) (runAttempt opts env n s))
         = runAttempt_catch opts env n e (s\<lparr>calls := Suc (calls s)\<rparr>)"
  using assms
  by (auto simp: runAttempt_def Let_def resume_def runAttempt_settled_def)

text \<open>
  Claim C5. Let the callbacks return normally, and let attempt \<open>n\<close> fail with \<open>e\<close>,
  by rejection or by a throw. The failure is caught: if the attempt is the last one or
  \<open>shouldRetry\<close> refuses \<open>e\<close>, the promise is resolved with \<open>null\<close> and the state is
  the state before the invocation with \<open>isFailed\<close> set, \<open>error = e\<close> and \<open>onFailure\<close>
  called with \<open>e\<close> and \<open>n\<close>, and so it stays; otherwise exactly a wait is scheduled.
  A sequence started by \<open>execute()\<close> never rejects its promise, whatever the operation
  does, and whenever \<open>isFailed\<close> is set its promise is resolved with \<open>null\<close>, \<open>error\<close>
  is the error of the latest invocation and \<open>onFailure\<close> was last called with it and
  the attempt number. An invocation that throws reaches at once exactly the result that
  the same invocation reaches, after its promise has settled, when it returns a promise
  rejected with the same error.
\<close>

theorem operation_errors_are_contained:
  fixes opts :: "('a, 'e) options"
  assumes "\<forall>e n. \<exists>b. shouldRetry opts e n = Inr b"
    and "\<forall>f e n. onFailure opts = Some f \<longrightarrow> f e n = None"
    and "\<forall>g v. onSuccess opts = Some g \<longrightarrow> g v = None"
  shows "(\<not> abortRef t \<and> (asyncFn env (calls t) = Rejects e \<or> asyncFn env (calls t) = Throws e)
            \<and> shouldRetry opts e n = Inr b \<longrightarrow>
          (let caught = (case asyncFn env (calls t) of
                           Throws _ \<Rightarrow> runAttempt opts env n t
                         | _ \<Rightarrow> drive opts env (Suc 0) (runAttempt opts env n t))
           in if maxAttempts opts \<le> int n \<or> \<not> b
              then caught =
                     (Resolved None,
                      t\<lparr>calls := Suc (calls t), isFailed := True, error := Some e,
                        failureLog := (if onFailure opts = None then failureLog t
                                       else failureLog t @ [(e, n)])\<rparr>)
                   \<and> (\<forall>fuel\<ge>1. drive opts env fuel (runAttempt opts env n t) = caught)
              else caught =
                     (AwaitTimer n (nextTimer t),
                      t\<lparr>calls := Suc (calls t), draws := Suc (draws t),
                        delayMs := calculateDelay opts env (mathRandom env (draws t)) n,
                        isRetrying := True,
                        timers := timers t
                          @ [(nextTimer t, calculateDelay opts env (mathRandom env (draws t)) n)],
                        nextTimer := Suc (nextTimer t), timeoutRef := Some (nextTimer t)\<rparr>)))
       \<and> (case drive opts env fuel (execute opts env False s) of
            (p, s') \<Rightarrow>
              (\<forall>x. p \<noteq> Rejected x)
              \<and> (isFailed s' \<longrightarrow>
                   p = Resolved None \<and> 0 < calls s'
                   \<and> (\<exists>e. error s' = Some e
                          \<and> (asyncFn env (calls s' - 1) = Rejects e
                              \<or> asyncFn env (calls s' - 1) = Throws e)
                          \<and> (onFailure opts \<noteq> None \<longrightarrow>
                               failureLog s' \<noteq> [] \<and> last (failureLog s') = (e, attempt s')))))
       \<and> (\<forall>env' n t e. \<not> abortRef t \<and> asyncFn env (calls t) = Throws e
              \<and> asyncFn env' (calls t) = Rejects e \<and> mathRandom env' = mathRandom env
              \<and> mathPow env' = mathPow env
            \<longrightarrow> runAttempt opts env n t = drive opts env' (Suc 0) (runAttempt opts env' n t))"
proof (intro conjI allI impI)
  assume h: "\<not> abortRef t \<and> (asyncFn env (calls t) = Rejects e \<or> asyncFn env (calls t) = Throws e)
            \<and> shouldRetry opts e n = Inr b"
  let ?t1 = "t\<lparr>calls := Suc (calls t)\<rparr>"
  have c: "(case asyncFn env (calls t) of
              Throws _ \<Rightarrow> runAttempt opts env n t
            | _ \<Rightarrow> drive opts env (Suc 0) (runAttempt opts env n t))
           = runAttempt_catch opts env n e ?t1"
    using h by (intro attempt_fails_caught) simp_all
  have onF: "f e n = None" if "onFailure opts = Some f" for f
    using assms(2) that by blast
  show "let caught = (case asyncFn env (calls t) of
                           Throws _ \<Rightarrow> runAttempt opts env n t
                         | _ \<Rightarrow> drive opts env (Suc 0) (runAttempt opts env n t))
           in if maxAttempts opts \<le> int n \<or> \<not> b
              then caught =
                     (Resolved None,
                      t\<lparr>calls := Suc (calls t), isFailed := True, error := Some e,
                        failureLog := (if onFailure opts = None then failureLog t
                                       else failureLog t @ [(e, n)])\<rparr>)
                   \<and> (\<forall>fuel\<ge>1. drive opts env fuel (runAttempt opts env n t) = caught)
              else caught =
                     (AwaitTimer n (nextTimer t),
                      t\<lparr>calls := Suc (calls t), draws := Suc (draws t),
                        delayMs := calculateDelay opts env (mathRandom env (draws t)) n,
                        isRetrying := True,
                        timers := timers t
                          @ [(nextTimer t, calculateDelay opts env (mathRandom env (draws t)) n)],
                        nextTimer := Suc (nextTimer t), timeoutRef := Some (nextTimer t)\<rparr>)"
  proof (cases "maxAttempts opts \<le> int n \<or> \<not> b")
    case True
    then have tm: "maxAttempts opts \<le> int n \<or> shouldRetry opts e n = Inr False"
      using h by auto
    have ct: "runAttempt_catch opts env n e ?t1 = runAttempt_terminal opts n e ?t1"
      using tm by (auto simp: catch_exhausted catch_refused)
    have tv: "runAttempt_terminal opts n e ?t1
          = (Resolved None,
             t\<lparr>calls := Suc (calls t), isFailed := True, error := Some e,
               failureLog := (if onFailure opts = None then failureLog t
                              else failureLog t @ [(e, n)])\<rparr>)"
    proof (cases "onFailure opts")
      case None
      then show ?thesis
        by (simp add: runAttempt_terminal_def Let_def)
    next
      case (Some f)
      then show ?thesis using onF [OF Some]
        by (simp add: runAttempt_terminal_def Let_def)
    qed
    have dr: "drive opts env fuel (runAttempt opts env n t) = runAttempt_terminal opts n e ?t1"
      if "1 \<le> fuel" for fuel
      using h that tm by (intro attempt_fails_terminal) simp_all
    show ?thesis unfolding c Let_def using True ct tv dr by simp
  next
    case False
    then have "int n < maxAttempts opts" "shouldRetry opts e n = Inr True" using h by auto
    then have "runAttempt_catch opts env n e ?t1
          = (AwaitTimer n (nextTimer t),
                      t\<lparr>calls := Suc (calls t), draws := Suc (draws t),
                        delayMs := calculateDelay opts env (mathRandom env (draws t)) n,
                        isRetrying := True,
                        timers := timers t
                          @ [(nextTimer t, calculateDelay opts env (mathRandom env (draws t)) n)],
                        nextTimer := Suc (nextTimer t), timeoutRef := Some (nextTimer t)\<rparr>)"
      by (simp add: runAttempt_catch_def Let_def)
    then show ?thesis unfolding c Let_def using False by simp
  qed
next
  let ?s0 = "s\<lparr>abortRef := False, attemptRef := 1, attempt := 1, isSuccess := False,
                isFailed := False, error := None, delayMs := Finite 0\<rparr>"
  have "contained opts env (snd (runAttempt opts env 1 ?s0)) (fst (runAttempt opts env 1 ?s0))"
    by (intro runAttempt_contained [OF assms(1,2)]) simp_all
  then have inv: "contained opts env (snd (drive opts env fuel (execute opts env False s)))
          (fst (drive opts env fuel (execute opts env False s)))"
    unfolding execute_unguarded by (rule drive_contained [OF assms])
  obtain p s' where ps: "drive opts env fuel (execute opts env False s) = (p, s')"
    by (cases "drive opts env fuel (execute opts env False s)")
  have f: "(asyncFn env k = Rejects e \<or> asyncFn env k = Throws e)"
    if "failure (asyncFn env k) = Some e" for k e
    using that by (cases "asyncFn env k") auto
  have "(\<forall>x. p \<noteq> Rejected x)
              \<and> (isFailed s' \<longrightarrow>
                   p = Resolved None \<and> 0 < calls s'
                   \<and> (\<exists>e. error s' = Some e
                          \<and> (asyncFn env (calls s' - 1) = Rejects e
                              \<or> asyncFn env (calls s' - 1) = Throws e)
                          \<and> (onFailure opts \<noteq> None \<longrightarrow>
                               failureLog s' \<noteq> [] \<and> last (failureLog s') = (e, attempt s'))))"
    using inv f unfolding ps by (cases p) auto
  then show "case drive opts env fuel (execute opts env False s) of
            (p, s') \<Rightarrow>
              (\<forall>x. p \<noteq> Rejected x)
              \<and> (isFailed s' \<longrightarrow>
                   p = Resolved None \<and> 0 < calls s'
                   \<and> (\<exists>e. error s' = Some e
                          \<and> (asyncFn env (calls s' - 1) = Rejects e
                              \<or> asyncFn env (calls s' - 1) = Throws e)
                          \<and> (onFailure opts \<noteq> None \<longrightarrow>
                               failureLog s' \<noteq> [] \<and> last (failureLog s') = (e, attempt s'))))"
    unfolding ps by simp
next
  fix env' :: "('a, 'e) env" and n and t :: "('a, 'e) hook" and e
  assume h: "\<not> abortRef t \<and> asyncFn env (calls t) = Throws e
              \<and> asyncFn env' (calls t) = Rejects e \<and> mathRandom env' = mathRandom env
              \<and> mathPow env' = mathPow env"
  have "calculateDelay opts env' = calculateDelay opts env"
    using h by (simp add: calculateDelay_def Math_pow_def fun_eq_iff)
  then have "runAttempt_catch opts env n e (t\<lparr>calls := Suc (calls t)\<rparr>)
        = runAttempt_catch opts env' n e (t\<lparr>calls := Suc (calls t)\<rparr>)"
    using h by (simp add: runAttempt_catch_def Let_def split: sum.splits)
  then show "runAttempt opts env n t = drive opts env' (Suc 0) (runAttempt opts env' n t)"
    using h by (simp add: runAttempt_def Let_def resume_def runAttempt_settled_def)
qed

theorem operation_errors_are_contained_witness:
  "(case drive (defaultOptions\<lparr>onFailure := Some (\<lambda>e n. None)\<rparr>) \<lparr>asyncFn = (\<lambda>k. Throws ''boom''), mathRandom = (\<lambda>k. 0), mathPow = pow64\<rparr> 3 (execute (defaultOptions\<lparr>onFailure := Some (\<lambda>e n. None)\<rparr>) \<lparr>asyncFn = (\<lambda>k. Throws ''boom''), mathRandom = (\<lambda>k. 0), mathPow = pow64\<rparr> False (initial :: (nat, string) hook)) of
     (p, s') \<Rightarrow> isFailed s' \<and> p = Resolved None \<and> error s' = Some ''boom''
       \<and> failureLog s' = [(''boom'', 3)])
   \<and> runAttempt (defaultOptions\<lparr>onFailure := Some (\<lambda>e n. None)\<rparr>) \<lparr>asyncFn = (\<lambda>k. Throws ''boom''), mathRandom = (\<lambda>k. 0), mathPow = pow64\<rparr> 3 ((initial :: (nat, string) hook)\<lparr>attempt := 3\<rparr>)
     = (Resolved None,
        (initial :: (nat, string) hook)\<lparr>attempt := 3, calls := 1, isFailed := True,
           error := Some ''boom'', failureLog := [(''boom'', 3)]\<rparr>)
   \<and> runAttempt (defaultOptions\<lparr>onFailure := Some (\<lambda>e n. None)\<rparr>) \<lparr>asyncFn = (\<lambda>k. Throws ''boom''), mathRandom = (\<lambda>k. 0), mathPow = pow64\<rparr> 1 (initial :: (nat, string) hook)
     = drive (defaultOptions\<lparr>onFailure := Some (\<lambda>e n. None)\<rparr>) \<lparr>asyncFn = (\<lambda>k. Rejects ''boom''), mathRandom = (\<lambda>k. 0), mathPow = pow64\<rparr> (Suc 0) (runAttempt (defaultOptions\<lparr>onFailure := Some (\<lambda>e n. None)\<rparr>) \<lparr>asyncFn = (\<lambda>k. Rejects ''boom''), mathRandom = (\<lambda>k. 0), mathPow = pow64\<rparr> 1 initial)"
proof -
  let ?opts = "defaultOptions\<lparr>onFailure := Some (\<lambda>e n. None)\<rparr> :: (nat, string) options"
  let ?env = "\<lparr>asyncFn = (\<lambda>k. Throws ''boom''), mathRandom = (\<lambda>k. 0), mathPow = pow64\<rparr> :: (nat, string) env"
  let ?env' = "\<lparr>asyncFn = (\<lambda>k. Rejects ''boom''), mathRandom = (\<lambda>k. 0), mathPow = pow64\<rparr> :: (nat, string) env"
  let ?t = "(initial :: (nat, string) hook)\<lparr>attempt := 3\<rparr>"
  have h: "\<forall>e n. \<exists>b. shouldRetry ?opts e n = Inr b"
    "\<forall>f e n. onFailure ?opts = Some f \<longrightarrow> f e n = None"
    "\<forall>g v. onSuccess ?opts = Some g \<longrightarrow> g v = None"
    by (auto simp: defaultOptions_def)
  note r = operation_errors_are_contained [OF h, of ?t ?env "''boom''" 3 True 3 initial]
  have a: "case drive ?opts ?env 3 (execute ?opts ?env False initial) of
     (p, s') \<Rightarrow> isFailed s' \<and> p = Resolved None \<and> error s' = Some ''boom''
       \<and> failureLog s' = [(''boom'', 3)]"
    using r [THEN conjunct2, THEN conjunct1]
    by (simp add: defaultOptions_def initial_def execute_def runAttempt_def
      runAttempt_catch_def runAttempt_terminal_def runAttempt_settled_def runAttempt_resumed_def
      resume_def pending_def clearTimeout_def Let_def numeral_eq_Suc)
  have b: "runAttempt ?opts ?env 3 ?t
     = (Resolved None,
        (initial :: (nat, string) hook)\<lparr>attempt := 3, calls := 1, isFailed := True,
           error := Some ''boom'', failureLog := [(''boom'', 3)]\<rparr>)"
    using r [THEN conjunct1]
    by (simp add: defaultOptions_def initial_def runAttempt_def runAttempt_catch_def
      runAttempt_terminal_def Let_def)
  have "\<not> abortRef (initial :: (nat, string) hook) \<and> asyncFn ?env (calls (initial :: (nat, string) hook)) = Throws ''boom''
        \<and> asyncFn ?env' (calls (initial :: (nat, string) hook)) = Rejects ''boom'' \<and> mathRandom ?env' = mathRandom ?env
        \<and> mathPow ?env' = mathPow ?env"
    by (simp add: initial_def)
  then have c: "runAttempt ?opts ?env 1 initial = drive ?opts ?env' (Suc 0) (runAttempt ?opts ?env' 1 initial)"
    using r [THEN conjunct2, THEN conjunct2] by blast
  show ?thesis using a b c by (intro conjI)
qed

subsection \<open>The guard of \<open>execute\<close>\<close>






text \<open>Once an attempt has failed, what a call of \<open>execute()\<close> does depends on the
  render that created the callback. During the wait the cell \<open>isRetrying\<close> is set: a
  callback that captured \<open>false\<close> (the callback of the first render, when the arguments
  of the hook are stable) starts a second sequence; one that captured \<open>true\<close> returns
  at once, resolved with \<open>null\<close>, and leaves the hook as it is. After the wait, while
  the second attempt is in flight, the cell is clear again: a callback that captured
  \<open>false\<close> starts a second sequence, and a callback created during the wait and not
  since is still stopped.\<close>

lemma execute_after_failure:
  "(case run (defaultOptions :: (nat, string) options)
           \<lparr>asyncFn = (\<lambda>k. Rejects ''boom''), mathRandom = (\<lambda>k. 0), mathPow = pow64\<rparr>
           [Execute False, Wake 0] (initial, []) of
      (s, ps) \<Rightarrow> ps = [AwaitTimer 1 1] \<and> isRetrying s \<and> calls s = 1)
   \<and> (case run (defaultOptions :: (nat, string) options)
           \<lparr>asyncFn = (\<lambda>k. Rejects ''boom''), mathRandom = (\<lambda>k. 0), mathPow = pow64\<rparr>
           [Execute False, Wake 0, Execute False] (initial, []) of
      (s, ps) \<Rightarrow> ps = [AwaitTimer 1 1, AwaitOp 1 1] \<and> calls s = 2)
   \<and> (case run (defaultOptions :: (nat, string) options)
           \<lparr>asyncFn = (\<lambda>k. Rejects ''boom''), mathRandom = (\<lambda>k. 0), mathPow = pow64\<rparr>
           [Execute False, Wake 0, Execute True] (initial, []) of
      (s, ps) \<Rightarrow> ps = [AwaitTimer 1 1, Resolved None] \<and> isRetrying s \<and> calls s = 1)
   \<and> (case run (defaultOptions :: (nat, string) options)
           \<lparr>asyncFn = (\<lambda>k. Rejects ''boom''), mathRandom = (\<lambda>k. 0), mathPow = pow64\<rparr>
           [Execute False, Wake 0, Wake 0] (initial, []) of
      (s, ps) \<Rightarrow> ps = [AwaitOp 2 1] \<and> \<not> isRetrying s \<and> calls s = 2)
   \<and> (case run (defaultOptions :: (nat, string) options)
           \<lparr>asyncFn = (\<lambda>k. Rejects ''boom''), mathRandom = (\<lambda>k. 0), mathPow = pow64\<rparr>
           [Execute False, Wake 0, Wake 0, Execute False] (initial, []) of
      (s, ps) \<Rightarrow> ps = [AwaitOp 2 1, AwaitOp 1 2] \<and> calls s = 3)
   \<and> (case run (defaultOptions :: (nat, string) options)
           \<lparr>asyncFn = (\<lambda>k. Rejects ''boom''), mathRandom = (\<lambda>k. 0), mathPow = pow64\<rparr>
           [Execute False, Wake 0, Wake 0, Execute True] (initial, []) of
      (s, ps) \<Rightarrow> ps = [AwaitOp 2 1, Resolved None] \<and> calls s = 2)"
  by (simp add: defaultOptions_def initial_def execute_def runAttempt_def
    runAttempt_catch_def runAttempt_settled_def runAttempt_resumed_def resume_def
    pending_def clearTimeout_def Let_def)

subsection \<open>\<open>abort\<close> during a wait\<close>

lemma dead_cong:
  "dead h s \<Longrightarrow> timers s' = timers s \<Longrightarrow> nextTimer s' = nextTimer s \<Longrightarrow> dead h s'"
  by (simp add: dead_def pending_def)

lemma terminal_dead: "dead h s \<Longrightarrow> dead h (snd (runAttempt_terminal opts n e s))"
  by (simp add: dead_def pending_def runAttempt_terminal_def Let_def split: option.splits)

lemma catch_dead: "dead h s \<Longrightarrow> dead h (snd (runAttempt_catch opts env n e s))"
  using terminal_dead [of h s opts n e]
  by (auto simp: runAttempt_catch_def Let_def dead_def pending_def split: sum.splits)

lemma runAttempt_dead:
  assumes "dead h s"
  shows "dead h (snd (runAttempt opts env n s))"
proof -
  have "dead h (s\<lparr>calls := Suc (calls s)\<rparr>)"
    by (rule dead_cong [OF assms]) simp_all
  then have "dead h (snd (runAttempt_catch opts env n e (s\<lparr>calls := Suc (calls s)\<rparr>)))" for e
    by (rule catch_dead)
  then show ?thesis
    using assms \<open>dead h (s\<lparr>calls := Suc (calls s)\<rparr>)\<close>
    by (simp add: runAttempt_def Let_def split: call.splits)
qed

lemma settled_dead:
  assumes "dead h s"
  shows "dead h (snd (runAttempt_settled opts env n k s))"
proof -
  have a: "dead h (s\<lparr>isSuccess := True\<rparr>)"
    by (rule dead_cong [OF assms]) simp_all
  have b: "dead h (s\<lparr>isSuccess := True, successLog := successLog s @ [v]\<rparr>)" for v
    by (rule dead_cong [OF assms]) simp_all
  have c: "dead h (snd (runAttempt_catch opts env n x
             (s\<lparr>isSuccess := True, successLog := successLog s @ [v]\<rparr>)))" for x v
    using b by (rule catch_dead)
  show ?thesis
    using assms a b c catch_dead [OF assms, of opts env n]
    by (simp add: runAttempt_settled_def Let_def split: call.splits option.splits)
qed

lemma resumed_dead:
  assumes "dead h s"
  shows "dead h (snd (runAttempt_resumed opts env n s))"
proof -
  have "dead h (s\<lparr>attemptRef := n + 1, attempt := n + 1, isRetrying := False, delayMs := Finite 0\<rparr>)"
    by (rule dead_cong [OF assms]) simp_all
  then have "dead h (snd (runAttempt opts env (n + 1)
      (s\<lparr>attemptRef := n + 1, attempt := n + 1, isRetrying := False, delayMs := Finite 0\<rparr>)))"
    by (rule runAttempt_dead)
  then show ?thesis using assms by (simp add: runAttempt_resumed_def Let_def)
qed

lemma clearTimeout_dead: "dead h s \<Longrightarrow> dead h (clearTimeout h' s)"
  by (auto simp: dead_def pending_def clearTimeout_def)

lemma resume_dead:
  assumes "dead h s"
  shows "dead h (snd (resume opts env p s))"
proof (cases p)
  case (AwaitOp n k)
  then show ?thesis using settled_dead [OF assms] by (simp add: resume_def)
next
  case (AwaitTimer n h')
  then show ?thesis
    using resumed_dead [OF clearTimeout_dead [OF assms], of opts env n h'] assms
    by (simp add: resume_def)
next
  case (Resolved v)
  then show ?thesis using assms by (simp add: resume_def)
next
  case (Rejected x)
  then show ?thesis using assms by (simp add: resume_def)
qed

lemma execute_dead:
  assumes "dead h s"
  shows "dead h (snd (execute opts env b s))"
proof -
  have "dead h (s\<lparr>abortRef := False, attemptRef := 1, attempt := 1, isSuccess := False,
                isFailed := False, error := None, delayMs := Finite 0\<rparr>)"
    by (rule dead_cong [OF assms]) simp_all
  then have "dead h (snd (runAttempt opts env 1
      (s\<lparr>abortRef := False, attemptRef := 1, attempt := 1, isSuccess := False,
                isFailed := False, error := None, delayMs := Finite 0\<rparr>)))"
    by (rule runAttempt_dead)
  then show ?thesis using assms by (simp add: execute_def)
qed

lemma abort_dead: "dead h s \<Longrightarrow> dead h (abort s)"
  by (auto simp: abort_def Let_def dead_def pending_def clearTimeout_def split: option.splits)

lemma reset_dead: "dead h s \<Longrightarrow> dead h (reset s)"
  using abort_dead [of h s] by (simp add: reset_def dead_def pending_def)

lemma step_stuck:
  assumes "t < length ps" and "ps ! t = AwaitTimer n h" and "dead h s"
  shows "case step opts env ev (s, ps) of
           (s', ps') \<Rightarrow> t < length ps' \<and> ps' ! t = AwaitTimer n h \<and> dead h s'"
proof (cases ev)
  case (Execute b)
  then show ?thesis using assms execute_dead [of h s opts env b]
    by (auto simp: nth_append split: prod.splits)
next
  case (Wake t')
  show ?thesis
  proof (cases "t' = t")
    case True
    then show ?thesis using Wake assms by (simp add: resume_def dead_def)
  next
    case False
    then show ?thesis using Wake assms resume_dead [of h s opts env "ps ! t'"]
      by (auto split: prod.splits)
  qed
next
  case Abort
  then show ?thesis using assms abort_dead by auto
next
  case Reset
  then show ?thesis using assms reset_dead by auto
qed

lemma run_stuck:
  "t < length ps \<Longrightarrow> ps ! t = AwaitTimer n h \<Longrightarrow> dead h s \<Longrightarrow>
     snd (run opts env evs (s, ps)) ! t = AwaitTimer n h"
proof (induction evs arbitrary: s ps)
  case Nil
  then show ?case by simp
next
  case (Cons ev evs)
  obtain s' ps' where st: "step opts env ev (s, ps) = (s', ps')" by (cases "step opts env ev (s, ps)")
  then have "t < length ps' \<and> ps' ! t = AwaitTimer n h \<and> dead h s'"
    using step_stuck [OF Cons.prems, of opts env ev] by simp
  then show ?case using Cons.IH [of ps' s'] st by simp
qed

lemma run_append: "run opts env (xs @ ys) sys = run opts env ys (run opts env xs sys)"
  by (induction xs arbitrary: sys) simp_all

text \<open>
  Claim C2. An operation that always fails, the default options: after \<open>execute()\<close> and
  the first rejection the hook waits, with \<open>isRetrying\<close> set and the timer 1 scheduled.
  \<open>abort()\<close> then clears the timer, \<open>isRetrying\<close> and \<open>delayMs\<close>, and no further
  attempt is made. But the cleared timer was the only one to resolve the wait promise:
  whatever happens afterwards, the promise returned by \<open>execute()\<close> stays suspended on
  the wait and is never resolved with \<open>null\<close>.
\<close>

theorem abort_while_waiting_hangs:
  "(case run (defaultOptions :: (nat, string) options)
           \<lparr>asyncFn = (\<lambda>k. Rejects ''boom''), mathRandom = (\<lambda>k. 0), mathPow = pow64\<rparr> [Execute False, Wake 0] (initial, []) of
      (s, ps) \<Rightarrow> ps = [AwaitTimer 1 1] \<and> isRetrying s \<and> timeoutRef s = Some 1 \<and> pending 1 s)
   \<and> (case run (defaultOptions :: (nat, string) options)
           \<lparr>asyncFn = (\<lambda>k. Rejects ''boom''), mathRandom = (\<lambda>k. 0), mathPow = pow64\<rparr> [Execute False, Wake 0, Abort] (initial, []) of
      (s, ps) \<Rightarrow> ps = [AwaitTimer 1 1] \<and> \<not> isRetrying s \<and> delayMs s = Finite 0 \<and> abortRef s
         \<and> timers s = [] \<and> calls s = 1)
   \<and> (\<forall>evs. snd (run (defaultOptions :: (nat, string) options)
           \<lparr>asyncFn = (\<lambda>k. Rejects ''boom''), mathRandom = (\<lambda>k. 0), mathPow = pow64\<rparr>
           ([Execute False, Wake 0, Abort] @ evs) (initial, [])) ! 0 = AwaitTimer 1 1)"
proof -
  let ?opts = "defaultOptions :: (nat, string) options"
  let ?env = "\<lparr>asyncFn = (\<lambda>k. Rejects ''boom''), mathRandom = (\<lambda>k. 0), mathPow = pow64\<rparr> :: (nat, string) env"
  obtain s where w: "run ?opts ?env [Execute False, Wake 0] (initial, []) = (s, [AwaitTimer 1 1])"
    and s: "isRetrying s" "timeoutRef s = Some 1" "pending 1 s" "nextTimer s = 2" "calls s = 1"
      "timers s = [(1, delayMs s)]"
    by (simp add: defaultOptions_def initial_def execute_def runAttempt_def
      runAttempt_catch_def runAttempt_settled_def resume_def Let_def pending_def)
  have a: "run ?opts ?env [Execute False, Wake 0, Abort] (initial, []) = (abort s, [AwaitTimer 1 1])"
    using run_append [of ?opts ?env "[Execute False, Wake 0]" "[Abort]" "(initial, [])"] w by simp
  have ab: "\<not> isRetrying (abort s)" "delayMs (abort s) = Finite 0" "abortRef (abort s)"
    "timers (abort s) = []" "calls (abort s) = 1" "dead 1 (abort s)"
    using s by (simp_all add: abort_def Let_def clearTimeout_def dead_def pending_def)
  have "snd (run ?opts ?env ([Execute False, Wake 0, Abort] @ evs) (initial, [])) ! 0 = AwaitTimer 1 1" for evs
    unfolding run_append a using ab(6) by (intro run_stuck) simp_all
  then show ?thesis using w s a ab by simp
qed

subsection \<open>\<open>reset\<close> and the next \<open>execute\<close>\<close>

lemma calculateDelay_shifted:
  "calculateDelay opts (shifted c d env) rnd n = calculateDelay opts env rnd n"
  by (simp add: calculateDelay_def Math_pow_def shifted_def)

lemma terminal_alike:
  assumes "alike_state c d sl fl s1 s2"
  shows "alike c d sl fl (runAttempt_terminal opts n e s1) (runAttempt_terminal opts n e s2)"
  using assms
  by (simp add: alike_def alike_state_def runAttempt_terminal_def Let_def split: option.splits)

lemma catch_alike:
  assumes "alike_state c d sl fl s1 s2"
  shows "alike c d sl fl (runAttempt_catch opts env n e s1)
           (runAttempt_catch opts (shifted c d env) n e s2)"
proof (cases "maxAttempts opts \<le> int n")
  case True
  then show ?thesis using terminal_alike [OF assms] by (simp add: runAttempt_catch_def)
next
  case False
  show ?thesis
  proof (cases "shouldRetry opts e n")
    case (Inl x)
    then show ?thesis using False assms
      by (simp add: runAttempt_catch_def alike_def)
  next
    case (Inr b)
    show ?thesis
    proof (cases b)
      case True
      have "mathRandom (shifted c d env) (draws s2) = mathRandom env (draws s1)"
        using assms by (simp add: shifted_def alike_state_def)
      then show ?thesis using False Inr True assms
        by (simp add: runAttempt_catch_def Let_def alike_def alike_state_def pending_def
            calculateDelay_shifted)
    next
      case b: False
      then show ?thesis using False Inr terminal_alike [OF assms]
        by (simp add: runAttempt_catch_def)
    qed
  qed
qed

lemma runAttempt_alike:
  assumes "alike_state c d sl fl s1 s2"
  shows "alike c d sl fl (runAttempt opts env n s1) (runAttempt opts (shifted c d env) n s2)"
proof (cases "abortRef s1")
  case True
  then have "abortRef s2" using assms by (simp add: alike_state_def)
  then show ?thesis using True assms by (simp add: runAttempt_def alike_def)
next
  case False
  then have na: "\<not> abortRef s2" using assms by (simp add: alike_state_def)
  have k: "asyncFn (shifted c d env) (calls s2) = asyncFn env (calls s1)"
    using assms by (simp add: shifted_def alike_state_def)
  have st: "alike_state c d sl fl (s1\<lparr>calls := Suc (calls s1)\<rparr>) (s2\<lparr>calls := Suc (calls s2)\<rparr>)"
    using assms by (simp add: alike_state_def)
  show ?thesis
  proof (cases "asyncFn env (calls s1)")
    case (Throws e)
    then show ?thesis using False na k catch_alike [OF st]
      by (simp add: runAttempt_def Let_def)
  next
    case (Resolves v)
    then show ?thesis using False na k st assms
      by (simp add: runAttempt_def Let_def alike_def alike_state_def)
  next
    case (Rejects e)
    then show ?thesis using False na k st assms
      by (simp add: runAttempt_def Let_def alike_def alike_state_def)
  qed
qed

lemma settled_alike:
  assumes "alike_state c d sl fl s1 s2"
  shows "alike c d sl fl (runAttempt_settled opts env n (c + k) s1)
           (runAttempt_settled opts (shifted c d env) n k s2)"
proof -
  have k: "asyncFn (shifted c d env) k = asyncFn env (c + k)"
    by (simp add: shifted_def)
  show ?thesis
  proof (cases "asyncFn env (c + k)")
    case (Throws e)
    then show ?thesis using k assms by (simp add: runAttempt_settled_def alike_def)
  next
    case (Rejects e)
    then show ?thesis using k catch_alike [OF assms] by (simp add: runAttempt_settled_def)
  next
    case (Resolves v)
    show ?thesis
    proof (cases "onSuccess opts")
      case None
      then show ?thesis using Resolves k assms
        by (simp add: runAttempt_settled_def Let_def alike_def alike_state_def)
    next
      case (Some g)
      have st: "alike_state c d sl fl (s1\<lparr>isSuccess := True, successLog := successLog s1 @ [v]\<rparr>)
                  (s2\<lparr>isSuccess := True, successLog := successLog s2 @ [v]\<rparr>)"
        using assms by (simp add: alike_state_def)
      show ?thesis
      proof (cases "g v")
        case None
        then show ?thesis using Resolves Some k st
          by (simp add: runAttempt_settled_def Let_def alike_def)
      next
        case x: (Some x)
        then show ?thesis using Resolves Some k catch_alike [OF st]
          by (simp add: runAttempt_settled_def Let_def)
      qed
    qed
  qed
qed

lemma resumed_alike:
  assumes "alike_state c d sl fl s1 s2"
  shows "alike c d sl fl (runAttempt_resumed opts env n s1)
           (runAttempt_resumed opts (shifted c d env) n s2)"
proof (cases "abortRef s1")
  case True
  then have "abortRef s2" using assms by (simp add: alike_state_def)
  then show ?thesis using True assms by (simp add: runAttempt_resumed_def alike_def)
next
  case False
  then have na: "\<not> abortRef s2" using assms by (simp add: alike_state_def)
  have "alike_state c d sl fl
          (s1\<lparr>attemptRef := n + 1, attempt := n + 1, isRetrying := False, delayMs := Finite 0\<rparr>)
          (s2\<lparr>attemptRef := n + 1, attempt := n + 1, isRetrying := False, delayMs := Finite 0\<rparr>)"
    using assms by (simp add: alike_state_def)
  then show ?thesis using False na runAttempt_alike
    by (simp add: runAttempt_resumed_def Let_def)
qed

lemma resume_alike:
  assumes "alike c d sl fl (p1, s1) (p2, s2)"
  shows "alike c d sl fl (resume opts env p1 s1) (resume opts (shifted c d env) p2 s2)"
proof -
  have st: "alike_state c d sl fl s1 s2" and pr: "alike_promise c s1 s2 p1 p2"
    using assms by (simp_all add: alike_def)
  show ?thesis
  proof (cases p1)
    case (AwaitOp n k)
    then obtain k' where "p2 = AwaitOp n k'" "k = c + k'"
      using pr by (cases p2) auto
    then show ?thesis using AwaitOp settled_alike [OF st] by (simp add: resume_def)
  next
    case (AwaitTimer n h)
    then obtain h' where p2: "p2 = AwaitTimer n h'" and pe: "pending h s1" "pending h' s2"
      using pr by (cases p2) auto
    have "alike_state c d sl fl (clearTimeout h s1) (clearTimeout h' s2)"
      using st by (simp add: alike_state_def clearTimeout_def)
    then show ?thesis using AwaitTimer p2 pe resumed_alike by (simp add: resume_def)
  next
    case (Resolved v)
    then have "p2 = Resolved v" using pr by (cases p2) auto
    then show ?thesis using Resolved assms by (simp add: resume_def)
  next
    case (Rejected x)
    then have "p2 = Rejected x" using pr by (cases p2) auto
    then show ?thesis using Rejected assms by (simp add: resume_def)
  qed
qed

lemma drive_alike:
  "alike c d sl fl ps1 ps2 \<Longrightarrow>
     alike c d sl fl (drive opts env fuel ps1) (drive opts (shifted c d env) fuel ps2)"
proof (induction fuel arbitrary: ps1 ps2)
  case 0
  then show ?case by simp
next
  case (Suc fuel)
  have "alike c d sl fl (resume opts env (fst ps1) (snd ps1))
          (resume opts (shifted c d env) (fst ps2) (snd ps2))"
    using Suc.prems by (intro resume_alike) simp
  then show ?case using Suc.IH by simp
qed

lemma reset_fields:
  "attempt (reset s) = 0 \<and> \<not> isRetrying (reset s) \<and> \<not> isSuccess (reset s) \<and> \<not> isFailed (reset s)
   \<and> error (reset s) = None \<and> delayMs (reset s) = Finite 0 \<and> attemptRef (reset s) = 0
   \<and> timeoutRef (reset s) = None \<and> abortRef (reset s)
   \<and> calls (reset s) = calls s \<and> draws (reset s) = draws s
   \<and> successLog (reset s) = successLog s \<and> failureLog (reset s) = failureLog s"
  by (simp add: reset_def abort_def Let_def clearTimeout_def split: option.splits)

lemma reset_clears_timer: "timeoutRef s = Some h \<Longrightarrow> \<not> pending h (reset s)"
  by (auto simp: reset_def abort_def Let_def clearTimeout_def pending_def)

lemma execute_after_reset_alike:
  "alike (calls s) (draws s) (successLog s) (failureLog s)
     (execute opts env False (reset s))
     (execute opts (shifted (calls s) (draws s) env) False initial)"
proof -
  let ?p = "\<lambda>s :: ('a, 'b) hook. s\<lparr>abortRef := False, attemptRef := 1, attempt := 1, isSuccess := False,
                isFailed := False, error := None, delayMs := Finite 0\<rparr>"
  have "alike_state (calls s) (draws s) (successLog s) (failureLog s) (?p (reset s)) (?p initial)"
    using reset_fields [of s] by (simp add: alike_state_def initial_def)
  then have "alike (calls s) (draws s) (successLog s) (failureLog s)
     (runAttempt opts env 1 (?p (reset s)))
     (runAttempt opts (shifted (calls s) (draws s) env) 1 (?p initial))"
    by (rule runAttempt_alike)
  then show ?thesis by (simp add: execute_unguarded)
qed

text \<open>
  Claim C8 (as amended). In every state, \<open>reset()\<close> sets \<open>attempt\<close> and \<open>attemptRef\<close>
  to 0, clears \<open>isRetrying\<close>, \<open>isSuccess\<close> and \<open>isFailed\<close>, sets \<open>error\<close> to \<open>null\<close>
  and \<open>delayMs\<close> to 0, and clears the timer whose handle is in \<open>timeoutRef\<close>. It
  leaves the abort flag set (it calls \<open>abort()\<close>); the flag is cleared by the next
  \<open>execute()\<close> that passes the guard, which is a call of a callback whose closure
  captured \<open>isRetrying = false\<close>. The sequence which that \<open>execute()\<close> starts, when it is
  the only sequence resumed, shows at every step the state cells and refs, and the
  promise state, of the sequence that a first \<open>execute()\<close> starts on a fresh hook whose
  operation and random source behave as the remaining ones do; the invocation count and
  the callback logs continue those of the earlier state.
\<close>

theorem reset_then_execute:
  "attempt (reset s) = 0 \<and> \<not> isRetrying (reset s) \<and> \<not> isSuccess (reset s) \<and> \<not> isFailed (reset s)
   \<and> error (reset s) = None \<and> delayMs (reset s) = Finite 0 \<and> attemptRef (reset s) = 0
   \<and> timeoutRef (reset s) = None \<and> abortRef (reset s)
   \<and> (\<forall>h. timeoutRef s = Some h \<longrightarrow> \<not> pending h (reset s))
   \<and> \<not> abortRef (snd (execute opts env False (reset s)))
   \<and> (case (drive opts env fuel (execute opts env False (reset s)),
             drive opts (shifted (calls s) (draws s) env) fuel
               (execute opts (shifted (calls s) (draws s) env) False initial)) of
         ((p1, s1), (p2, s2)) \<Rightarrow>
           attempt s1 = attempt s2 \<and> isRetrying s1 = isRetrying s2 \<and> isSuccess s1 = isSuccess s2
           \<and> isFailed s1 = isFailed s2 \<and> delayMs s1 = delayMs s2 \<and> error s1 = error s2
           \<and> abortRef s1 = abortRef s2 \<and> attemptRef s1 = attemptRef s2
           \<and> calls s1 = calls s + calls s2
           \<and> successLog s1 = successLog s @ successLog s2
           \<and> failureLog s1 = failureLog s @ failureLog s2
           \<and> (\<forall>v. (p1 = Resolved v) = (p2 = Resolved v))
           \<and> (\<forall>x. (p1 = Rejected x) = (p2 = Rejected x)))"
proof -
  have "alike (calls s) (draws s) (successLog s) (failureLog s)
          (drive opts env fuel (execute opts env False (reset s)))
          (drive opts (shifted (calls s) (draws s) env) fuel
               (execute opts (shifted (calls s) (draws s) env) False initial))"
    by (intro drive_alike execute_after_reset_alike)
  then have sim: "case (drive opts env fuel (execute opts env False (reset s)),
             drive opts (shifted (calls s) (draws s) env) fuel
               (execute opts (shifted (calls s) (draws s) env) False initial)) of
         ((p1, s1), (p2, s2)) \<Rightarrow>
           attempt s1 = attempt s2 \<and> isRetrying s1 = isRetrying s2 \<and> isSuccess s1 = isSuccess s2
           \<and> isFailed s1 = isFailed s2 \<and> delayMs s1 = delayMs s2 \<and> error s1 = error s2
           \<and> abortRef s1 = abortRef s2 \<and> attemptRef s1 = attemptRef s2
           \<and> calls s1 = calls s + calls s2
           \<and> successLog s1 = successLog s @ successLog s2
           \<and> failureLog s1 = failureLog s @ failureLog s2
           \<and> (\<forall>v. (p1 = Resolved v) = (p2 = Resolved v))
           \<and> (\<forall>x. (p1 = Rejected x) = (p2 = Rejected x))"
  proof -
    obtain p1 s1 where a: "drive opts env fuel (execute opts env False (reset s)) = (p1, s1)"
      by (cases "drive opts env fuel (execute opts env False (reset s))")
    obtain p2 s2 where b: "drive opts (shifted (calls s) (draws s) env) fuel
               (execute opts (shifted (calls s) (draws s) env) False initial) = (p2, s2)"
      by (cases "drive opts (shifted (calls s) (draws s) env) fuel
               (execute opts (shifted (calls s) (draws s) env) False initial)")
    assume al: "alike (calls s) (draws s) (successLog s) (failureLog s)
          (drive opts env fuel (execute opts env False (reset s)))
          (drive opts (shifted (calls s) (draws s) env) fuel
               (execute opts (shifted (calls s) (draws s) env) False initial))"
    then have st: "alike_state (calls s) (draws s) (successLog s) (failureLog s) s1 s2"
      and pr: "alike_promise (calls s) s1 s2 p1 p2"
      unfolding a b by (simp_all add: alike_def)
    have "(\<forall>v. (p1 = Resolved v) = (p2 = Resolved v)) \<and> (\<forall>x. (p1 = Rejected x) = (p2 = Rejected x))"
      using pr by (cases p1; cases p2) auto
    then show ?thesis unfolding a b using st by (simp add: alike_state_def)
  qed
  have na: "\<not> abortRef (snd (execute opts env False (reset s)))"
  proof -
    show ?thesis
      by (simp add: execute_unguarded runAttempt_def runAttempt_catch_def runAttempt_terminal_def
          Let_def split: call.splits sum.splits option.splits)
  qed
  show ?thesis
    using reset_fields [of s] reset_clears_timer [of s] sim na by simp
qed

theorem reset_then_execute_witness:
  "timeoutRef (\<lparr>attempt = 3, isRetrying = False, isSuccess = False, isFailed = True, delayMs = Finite 0,
         error = Some ''boom'', abortRef = False, timeoutRef = Some 2, attemptRef = 3, calls = 3,
         draws = 2, successLog = [], failureLog = [], timers = [], nextTimer = 3\<rparr> :: (nat, string) hook) = Some 2
   \<and> \<not> pending 2 (reset (\<lparr>attempt = 3, isRetrying = False, isSuccess = False, isFailed = True, delayMs = Finite 0,
         error = Some ''boom'', abortRef = False, timeoutRef = Some 2, attemptRef = 3, calls = 3,
         draws = 2, successLog = [], failureLog = [], timers = [], nextTimer = 3\<rparr> :: (nat, string) hook))
   \<and> \<not> isFailed (reset (\<lparr>attempt = 3, isRetrying = False, isSuccess = False, isFailed = True, delayMs = Finite 0,
         error = Some ''boom'', abortRef = False, timeoutRef = Some 2, attemptRef = 3, calls = 3,
         draws = 2, successLog = [], failureLog = [], timers = [], nextTimer = 3\<rparr> :: (nat, string) hook))
   \<and> \<not> abortRef (snd (execute defaultOptions \<lparr>asyncFn = (\<lambda>k. Rejects ''boom''), mathRandom = (\<lambda>k. 0), mathPow = pow64\<rparr> False
          (reset (\<lparr>attempt = 3, isRetrying = False, isSuccess = False, isFailed = True, delayMs = Finite 0,
         error = Some ''boom'', abortRef = False, timeoutRef = Some 2, attemptRef = 3, calls = 3,
         draws = 2, successLog = [], failureLog = [], timers = [], nextTimer = 3\<rparr> :: (nat, string) hook))))"
proof -
  let ?s = "\<lparr>attempt = 3, isRetrying = False, isSuccess = False, isFailed = True, delayMs = Finite 0,
         error = Some ''boom'', abortRef = False, timeoutRef = Some 2, attemptRef = 3, calls = 3,
         draws = 2, successLog = [], failureLog = [], timers = [], nextTimer = 3\<rparr> :: (nat, string) hook"
  note r = reset_then_execute [of ?s "defaultOptions :: (nat, string) options" "\<lparr>asyncFn = (\<lambda>k. Rejects ''boom''), mathRandom = (\<lambda>k. 0), mathPow = pow64\<rparr>" 0]
  have t: "timeoutRef ?s = Some 2" by simp
  from r have "\<forall>h. timeoutRef ?s = Some h \<longrightarrow> \<not> pending h (reset ?s)"
    by (elim conjE) assumption
  then have a: "\<not> pending 2 (reset ?s)" using t by blast
  from r have b: "\<not> isFailed (reset ?s)" by (elim conjE) assumption
  from r have c: "\<not> abortRef (snd (execute defaultOptions \<lparr>asyncFn = (\<lambda>k. Rejects ''boom''), mathRandom = (\<lambda>k. 0), mathPow = pow64\<rparr> False (reset ?s)))"
    by (elim conjE) assumption
  show ?thesis using t a b c by (intro conjI)
qed

text \<open>What the claim says beyond this fails, on five runs with default options
  unless stated. (1) After a failed sequence (three rejections) \<open>reset()\<close> leaves the
  abort flag set. (2) Two calls of \<open>execute()\<close> while the operation is in flight start
  two sequences, each of which comes to wait on a timer of its own; \<open>timeoutRef\<close> holds
  the later handle only, and \<open>reset()\<close> leaves the earlier timer scheduled. (3) When
  \<open>execute()\<close> is then called and the earlier timer fires, the earlier sequence goes on
  to its second attempt next to the new sequence. (4) With \<open>maxAttempts = 1\<close>, an
  invocation still in flight at \<open>reset()\<close> that is rejected after the next sequence has
  succeeded leaves \<open>isSuccess\<close> and \<open>isFailed\<close> both set and its error in \<open>error\<close>,
  where a first call on a fresh hook with the succeeding operation ends with
  \<open>isSuccess\<close> alone. (5) During a wait, \<open>reset()\<close> followed by a call of an
  \<open>execute\<close> callback that was created while \<open>isRetrying\<close> was true is stopped by the
  guard: the promise resolves with \<open>null\<close>, the operation is not invoked and the abort
  flag stays set.\<close>

theorem reset_then_execute_counterexample:
  "abortRef (reset (snd (drive (defaultOptions :: (nat, string) options)
       \<lparr>asyncFn = (\<lambda>k. Rejects ''boom''), mathRandom = (\<lambda>k. 0), mathPow = pow64\<rparr> 6
       (execute defaultOptions
          \<lparr>asyncFn = (\<lambda>k. Rejects ''boom''), mathRandom = (\<lambda>k. 0), mathPow = pow64\<rparr> False initial))))
   \<and> (case run (defaultOptions :: (nat, string) options)
           \<lparr>asyncFn = (\<lambda>k. Rejects ''boom''), mathRandom = (\<lambda>k. 0), mathPow = pow64\<rparr>
           [Execute False, Execute False, Wake 0, Wake 1, Reset] (initial, []) of
      (s, ps) \<Rightarrow> ps = [AwaitTimer 1 1, AwaitTimer 1 2] \<and> timeoutRef s = None \<and> pending 1 s
         \<and> \<not> pending 2 s)
   \<and> (case run (defaultOptions :: (nat, string) options)
           \<lparr>asyncFn = (\<lambda>k. Rejects ''boom''), mathRandom = (\<lambda>k. 0), mathPow = pow64\<rparr>
           [Execute False, Execute False, Wake 0, Wake 1, Reset, Execute False, Wake 0]
           (initial, []) of
      (s, ps) \<Rightarrow> ps = [AwaitOp 2 3, AwaitTimer 1 2, AwaitOp 1 2] \<and> calls s = 4 \<and> attempt s = 2)
   \<and> (case run ((defaultOptions :: (nat, string) options)\<lparr>maxAttempts := 1\<rparr>)
           \<lparr>asyncFn = (\<lambda>k. if k = 0 then Rejects ''old'' else Resolves 7), mathRandom = (\<lambda>k. 0),
             mathPow = pow64\<rparr>
           [Execute False, Reset, Execute False, Wake 1, Wake 0] (initial, []) of
      (s, ps) \<Rightarrow> ps = [Resolved None, Resolved (Some 7)] \<and> isSuccess s \<and> isFailed s
         \<and> error s = Some ''old'')
   \<and> (case drive ((defaultOptions :: (nat, string) options)\<lparr>maxAttempts := 1\<rparr>)
           \<lparr>asyncFn = (\<lambda>k. Resolves 7), mathRandom = (\<lambda>k. 0), mathPow = pow64\<rparr> 1
           (execute (defaultOptions\<lparr>maxAttempts := 1\<rparr>)
              \<lparr>asyncFn = (\<lambda>k. Resolves 7), mathRandom = (\<lambda>k. 0), mathPow = pow64\<rparr> False initial) of
      (p, s) \<Rightarrow> p = Resolved (Some 7) \<and> isSuccess s \<and> \<not> isFailed s \<and> error s = None)
   \<and> (case run (defaultOptions :: (nat, string) options)
           \<lparr>asyncFn = (\<lambda>k. Rejects ''boom''), mathRandom = (\<lambda>k. 0), mathPow = pow64\<rparr>
           [Execute False, Wake 0, Reset, Execute True] (initial, []) of
      (s, ps) \<Rightarrow> ps = [AwaitTimer 1 1, Resolved None] \<and> calls s = 1 \<and> attempt s = 0
         \<and> abortRef s)"
  by (simp add: defaultOptions_def initial_def execute_def runAttempt_def
    runAttempt_catch_def runAttempt_terminal_def runAttempt_settled_def runAttempt_resumed_def
    resume_def pending_def clearTimeout_def reset_def abort_def Let_def numeral_eq_Suc)

end
